(* ===== verification/Astro_Prelude.thy ===== *)
theory Astro_Prelude
  imports Main "HOL-Library.Word"
begin

text \<open>
  Shared vocabulary of the development: the machine integers and byte strings of the C++ code,
  the exceptions it throws, sequencing of code that may throw, and the facts about lists, bytes
  and characters that several components use.
\<close>

unbundle bit_operations_syntax

named_theorems codec_simps \<open>equations that run a reader over freshly written bytes\<close>
named_theorems size_simps \<open>lengths of encodings and of hash values\<close>

section \<open>Machine types\<close>

type_synonym u8 = "8 word"
type_synonym u16 = "16 word"
type_synonym u32 = "32 word"
type_synonym u64 = "64 word"
type_synonym bytes = "u8 list"

section \<open>Exceptions\<close>

text \<open>
  What C++ code of the repository can throw. \<open>RuntimeError\<close> is \<open>std::runtime_error\<close> with its
  message, \<open>SerializeError\<close> its subclass declared in serializer.hpp, \<open>SystemError\<close> is
  \<open>std::system_error\<close> and \<open>std::filesystem::filesystem_error\<close>, \<open>BadAlloc\<close> is what an allocation
  that cannot be served throws.
\<close>

datatype exn =
    RuntimeError string
  | SerializeError string
  | SystemError string
  | BadAlloc
  | InvalidArgument string
  | OutOfRange string

text \<open>
  An exception nobody catches, or \<open>std::terminate\<close> called directly, ends a program. A program whose thread waits
  for ever for another one is \<open>Blocked\<close>.
\<close>

datatype crash = Uncaught exn | Terminated | Blocked

text \<open>Sequencing: the exception of the first part that throws is the exception of the whole.\<close>

definition bindE :: "exn + 'a \<Rightarrow> ('a \<Rightarrow> exn + 'b) \<Rightarrow> exn + 'b" where
  "bindE m f = (case m of Inl e \<Rightarrow> Inl e | Inr x \<Rightarrow> f x)"

lemma bindE_simps [simp]:
  "bindE (Inl e) f = Inl e"
  "bindE (Inr x) f = f x"
  by (simp_all add: bindE_def)

lemma bindE_eq_Inr: "bindE m f = Inr y \<longleftrightarrow> (\<exists>x. m = Inr x \<and> f x = Inr y)"
  by (cases m) auto

lemma bindE_eq_Inl: "bindE m f = Inl e \<longleftrightarrow> m = Inl e \<or> (\<exists>x. m = Inr x \<and> f x = Inl e)"
  by (cases m) auto

lemma bindE_cong [fundef_cong]:
  "m = n \<Longrightarrow> (\<And>x. n = Inr x \<Longrightarrow> f x = g x) \<Longrightarrow> bindE m f = bindE n g"
  by (cases n) auto

section \<open>Characters and bytes\<close>

text \<open>A \<open>char\<close> of a \<open>std::string\<close> read as a byte, and back.\<close>

definition byte_of_char :: "char \<Rightarrow> u8" where
  "byte_of_char c = word_of_nat (of_char c)"

definition char_of_byte :: "u8 \<Rightarrow> char" where
  "char_of_byte b = char_of (unat b)"

lemma char_of_byte_of_char [simp]: "char_of_byte (byte_of_char c) = c"
  by (simp add: byte_of_char_def char_of_byte_def unat_of_nat take_bit_eq_mod)

lemma byte_of_char_of_byte [simp]: "byte_of_char (char_of_byte b) = b"
proof -
  have "unat b < 256"
    using unsigned_less [of b] by simp
  then have "(of_char (char_of (unat b)) :: nat) = unat b"
    by (simp add: take_bit_eq_mod)
  then show ?thesis
    by (simp add: byte_of_char_def char_of_byte_def)
qed

abbreviation string_bytes :: "string \<Rightarrow> bytes" where
  "string_bytes s \<equiv> map byte_of_char s"

abbreviation bytes_string :: "bytes \<Rightarrow> string" where
  "bytes_string bs \<equiv> map char_of_byte bs"

lemma char_byte_comp [simp]:
  "char_of_byte \<circ> byte_of_char = id" "byte_of_char \<circ> char_of_byte = id"
  by (simp_all add: fun_eq_iff)

lemma bytes_string_bytes: "bytes_string (string_bytes s) = s"
  by simp

lemma string_bytes_inject [simp]: "string_bytes s = string_bytes t \<longleftrightarrow> s = t"
  by (metis bytes_string_bytes)

section \<open>Widening and narrowing\<close>

lemma ucast_u16_u32 [simp]: "ucast (ucast (x :: u16) :: u32) = x"
  by (rule bit_word_eqI) (simp add: bit_ucast_iff)

lemma unat_u64_of_nat: "n < 2 ^ 64 \<Longrightarrow> unat (word_of_nat n :: u64) = n"
  by (simp add: unat_of_nat take_bit_eq_mod)

section \<open>Numbers as text\<close>

text \<open>\<open>std::to_string\<close> and stream output of unsigned numbers.\<close>

fun decimal :: "nat \<Rightarrow> string" where
  "decimal n = (if n < 10 then [] else decimal (n div 10)) @ [char_of (48 + n mod 10)]"

declare decimal.simps [simp del]

end
