(* ===== verification/Astro_Serializer.thy ===== *)
theory Astro_Serializer
  imports Astro_Prelude
begin

text \<open>
  include/astro/core/serializer.hpp: the little-endian \<open>ByteWriter\<close> and the bounds-checked
  \<open>ByteReader\<close>. The interface a decoder and an encoder promise each other is the locale
  \<open>codec\<close>; every encoding of the development (integers, length-prefixed fields, transactions,
  block headers, blocks) interprets it, and prefix-freeness and injectivity come from it once.
\<close>

section \<open>ByteWriter\<close>

record ByteWriter =
  wbuf :: bytes

definition new_writer :: ByteWriter where
  "new_writer = \<lparr>wbuf = []\<rparr>"

definition sizeof :: "'a::len word \<Rightarrow> nat" where
  "sizeof v = size v div 8"

definition write_u8 :: "u8 \<Rightarrow> ByteWriter \<Rightarrow> ByteWriter" where
  "write_u8 value w = w\<lparr>wbuf := wbuf w @ [value]\<rparr>"

definition write_le_value :: "'a::len word \<Rightarrow> ByteWriter \<Rightarrow> ByteWriter" where
  "write_le_value value w =
     foldl (\<lambda>w i. write_u8 (ucast (drop_bit (8 * i) value AND 0xFF)) w) w [0..<sizeof value]"

definition write_u32 :: "u32 \<Rightarrow> ByteWriter \<Rightarrow> ByteWriter" where
  "write_u32 value w = write_le_value value w"

definition write_u64 :: "u64 \<Rightarrow> ByteWriter \<Rightarrow> ByteWriter" where
  "write_u64 value w = write_le_value value w"

definition write_raw :: "bytes \<Rightarrow> ByteWriter \<Rightarrow> ByteWriter" where
  "write_raw bs w = w\<lparr>wbuf := wbuf w @ bs\<rparr>"

text \<open>The length prefix is \<open>static_cast<uint32_t>(size)\<close>: it wraps at \<open>2 ^ 32\<close>.\<close>

definition write_bytes :: "bytes \<Rightarrow> ByteWriter \<Rightarrow> ByteWriter" where
  "write_bytes bs w = write_raw bs (write_u32 (word_of_nat (length bs)) w)"

definition write_string :: "string \<Rightarrow> ByteWriter \<Rightarrow> ByteWriter" where
  "write_string str w = write_raw (string_bytes str) (write_u32 (word_of_nat (length str)) w)"

definition take_buffer :: "ByteWriter \<Rightarrow> bytes" where
  "take_buffer w = wbuf w"

section \<open>ByteReader\<close>

record ByteReader =
  rsrc :: bytes
  rpos :: nat

type_synonym 'a parser = "ByteReader \<Rightarrow> exn + ('a \<times> ByteReader)"

definition new_reader :: "bytes \<Rightarrow> ByteReader" where
  "new_reader src = \<lparr>rsrc = src, rpos = 0\<rparr>"

definition remaining_bytes :: "ByteReader \<Rightarrow> nat" where
  "remaining_bytes r = length (rsrc r) - rpos r"

definition truncated :: exn where
  "truncated = SerializeError ''deserialize: truncated/invalid buffer''"

definition ensure :: "bool \<Rightarrow> exn + unit" where
  "ensure condition = (if \<not> condition then Inl truncated else Inr ())"

definition read_value :: "'a::len word parser" where
  "read_value r =
     bindE (ensure (sizeof (0 :: 'a word) \<le> remaining_bytes r))
       (\<lambda>_. Inr (foldl (\<lambda>(value, r) i.
                         (value OR push_bit (8 * i) (ucast (rsrc r ! rpos r)),
                          r\<lparr>rpos := rpos r + 1\<rparr>))
                    (0 :: 'a word, r) [0..<sizeof (0 :: 'a word)]))"

definition read_u8 :: "u8 parser" where
  "read_u8 = read_value"

definition read_u32 :: "u32 parser" where
  "read_u32 = read_value"

definition read_u64 :: "u64 parser" where
  "read_u64 = read_value"

definition read_bytes :: "bytes parser" where
  "read_bytes r =
     bindE (read_u32 r) (\<lambda>(len, r).
     bindE (ensure (unat len \<le> remaining_bytes r)) (\<lambda>_.
     Inr (take (unat len) (drop (rpos r) (rsrc r)), r\<lparr>rpos := rpos r + unat len\<rparr>)))"

definition read_string :: "string parser" where
  "read_string r =
     bindE (read_u32 r) (\<lambda>(len, r).
     bindE (ensure (unat len \<le> remaining_bytes r)) (\<lambda>_.
     Inr (bytes_string (take (unat len) (drop (rpos r) (rsrc r))),
          r\<lparr>rpos := rpos r + unat len\<rparr>)))"

text \<open>A \<open>for\<close> loop that reads \<open>n\<close> items with the same code and pushes each to a vector.\<close>

fun read_n :: "nat \<Rightarrow> 'a parser \<Rightarrow> 'a list parser" where
  "read_n 0 p r = Inr ([], r)"
| "read_n (Suc n) p r =
     bindE (p r) (\<lambda>(x, r). bindE (read_n n p r) (\<lambda>(xs, r). Inr (x # xs, r)))"

section \<open>Little-endian bytes\<close>

text \<open>What the two loops compute, as functions of the whole value.\<close>

definition le_bytes :: "'a::len word \<Rightarrow> bytes" where
  "le_bytes value = map (\<lambda>i. ucast (drop_bit (8 * i) value AND 0xFF)) [0..<sizeof value]"

definition of_le_bytes :: "bytes \<Rightarrow> 'a::len word" where
  "of_le_bytes bs = foldl (\<lambda>v i. v OR push_bit (8 * i) (ucast (bs ! i))) 0 [0..<length bs]"

lemma sizeof_simps [simp]:
  "sizeof (x :: u8) = 1" "sizeof (y :: u16) = 2" "sizeof (z :: u32) = 4" "sizeof (v :: u64) = 8"
  by (simp_all add: sizeof_def word_size)

lemma length_le_bytes [simp, size_simps]: "length (le_bytes v) = sizeof v"
  by (simp add: le_bytes_def)

lemma le_bytes_nth:
  "i < sizeof v \<Longrightarrow> le_bytes v ! i = ucast (drop_bit (8 * i) v AND 0xFF)"
  by (simp add: le_bytes_def)

lemma bit_0xFF: "bit (0xFF :: 'a::len word) k \<longleftrightarrow> k < 8 \<and> k < LENGTH('a)"
proof -
  have "(0xFF :: 'a word) = mask 8" by (simp add: mask_eq_exp_minus_1)
  then show ?thesis by (auto simp only: bit_mask_iff possible_bit_word)
qed

lemma bit_le_bytes:
  assumes "i < sizeof v"
  shows "bit (le_bytes v ! i) k \<longleftrightarrow> k < 8 \<and> bit v (8 * i + k)"
  using bit_imp_le_length [of v "8 * i + k"]
  unfolding le_bytes_nth [OF assms] bit_ucast_iff bit_and_iff bit_drop_bit_eq bit_0xFF
  by auto

lemma bit_of_le_bytes_aux:
  "bit (foldl (\<lambda>v i. v OR push_bit (8 * i) (ucast (bs ! i))) 0 [0..<n] :: 'a::len word) k \<longleftrightarrow>
     k < LENGTH('a) \<and> k div 8 < n \<and> bit (bs ! (k div 8)) (k mod 8)"
  for bs :: bytes
proof (induction n)
  case 0
  show ?case by simp
next
  case (Suc n)
  have "bit (push_bit (8 * n) (ucast (bs ! n)) :: 'a word) k \<longleftrightarrow>
      k < LENGTH('a) \<and> 8 * n \<le> k \<and> bit (bs ! n) (k - 8 * n)"
    by (auto simp: bit_push_bit_iff bit_ucast_iff)
  moreover have "8 * n \<le> k \<and> bit (bs ! n) (k - 8 * n) \<longleftrightarrow> k div 8 = n \<and> bit (bs ! n) (k mod 8)"
  proof (cases "k div 8 = n")
    case True
    then have "8 * n \<le> k" and "k - 8 * n = k mod 8"
      by (simp_all add: minus_mult_div_eq_mod flip: True)
    with True show ?thesis by simp
  next
    case False
    then have "k div 8 < n \<or> Suc n \<le> k div 8" by auto
    then have "k < 8 * n \<or> 8 \<le> k - 8 * n"
      by (auto simp: div_less_iff_less_mult less_eq_div_iff_mult_less_eq)
    moreover have "\<not> bit (bs ! n) j" if "8 \<le> j" for j
      using that bit_imp_le_length [of "bs ! n" j] by auto
    ultimately show ?thesis using False by auto
  qed
  ultimately show ?case using Suc.IH by (auto simp: bit_or_iff less_Suc_eq)
qed

lemma bit_of_le_bytes:
  "bit (of_le_bytes bs :: 'a::len word) k \<longleftrightarrow>
     k < LENGTH('a) \<and> k div 8 < length bs \<and> bit (bs ! (k div 8)) (k mod 8)"
  by (simp add: of_le_bytes_def bit_of_le_bytes_aux)

lemma of_le_bytes_le_bytes:
  assumes "8 dvd LENGTH('a::len)"
  shows "of_le_bytes (le_bytes v) = (v :: 'a word)"
proof (rule bit_eqI)
  fix k
  show "bit (of_le_bytes (le_bytes v) :: 'a word) k = bit v k"
  proof (cases "k < LENGTH('a)")
    case True
    with assms have lt: "k div 8 < sizeof v"
      by (auto simp: sizeof_def word_size elim!: dvdE)
    have "8 * (k div 8) + k mod 8 = k" by presburger
    with True lt show ?thesis by (simp add: bit_of_le_bytes bit_le_bytes)
  next
    case False
    then show ?thesis by (auto simp: bit_of_le_bytes dest: bit_imp_le_length)
  qed
qed

lemma le_bytes_of_le_bytes:
  assumes "LENGTH('a::len) = 8 * length bs"
  shows "le_bytes (of_le_bytes bs :: 'a word) = bs"
proof (rule nth_equalityI)
  have sz: "sizeof (v :: 'a word) = length bs" for v
    by (simp add: sizeof_def word_size assms)
  then show "length (le_bytes (of_le_bytes bs :: 'a word)) = length bs" by simp
  fix i
  assume "i < length (le_bytes (of_le_bytes bs :: 'a word))"
  with sz have i: "i < length bs" by simp
  show "le_bytes (of_le_bytes bs :: 'a word) ! i = bs ! i"
  proof (rule bit_eqI)
    fix k
    assume "possible_bit TYPE(8 word) k"
    then have "k < 8" by simp
    with i show "bit (le_bytes (of_le_bytes bs :: 'a word) ! i) k = bit (bs ! i) k"
      by (simp add: bit_le_bytes sz bit_of_le_bytes assms)
  qed
qed

lemma of_le_bytes_le_bytes_simps [simp]:
  "of_le_bytes (le_bytes (x :: u8)) = x" "of_le_bytes (le_bytes (y :: u16)) = y"
  "of_le_bytes (le_bytes (z :: u32)) = z" "of_le_bytes (le_bytes (v :: u64)) = v"
  by (simp_all add: of_le_bytes_le_bytes)

section \<open>Effect of the writer\<close>

lemma foldl_write_u8:
  "foldl (\<lambda>w i. write_u8 (f i) w) w is = w\<lparr>wbuf := wbuf w @ map f is\<rparr>"
  by (induction "is" arbitrary: w) (simp_all add: write_u8_def)

lemma write_le_value_eq: "write_le_value v w = write_raw (le_bytes v) w"
  by (simp add: write_le_value_def foldl_write_u8 le_bytes_def write_raw_def)

definition u32_prefix :: "nat \<Rightarrow> bytes" where
  "u32_prefix n = le_bytes (word_of_nat n :: u32)"

lemma length_u32_prefix [simp, size_simps]: "length (u32_prefix n) = 4"
  by (simp add: u32_prefix_def)

lemma buffer_write [simp]:
  "wbuf (write_u8 b w) = wbuf w @ [b]"
  "wbuf (write_raw bs w) = wbuf w @ bs"
  "wbuf (write_u32 x w) = wbuf w @ le_bytes x"
  "wbuf (write_u64 y w) = wbuf w @ le_bytes y"
  "wbuf (write_bytes bs w) = wbuf w @ u32_prefix (length bs) @ bs"
  "wbuf (write_string s w) = wbuf w @ u32_prefix (length s) @ string_bytes s"
  "wbuf new_writer = []"
  by (simp_all add: write_u8_def write_raw_def write_u32_def write_u64_def write_bytes_def
      write_string_def write_le_value_eq new_writer_def u32_prefix_def)

section \<open>Effect of the reader\<close>

definition rest :: "ByteReader \<Rightarrow> bytes" where
  "rest r = drop (rpos r) (rsrc r)"

definition advance :: "nat \<Rightarrow> ByteReader \<Rightarrow> ByteReader" where
  "advance n r = r\<lparr>rpos := rpos r + n\<rparr>"

lemma remaining_bytes_rest: "remaining_bytes r = length (rest r)"
  by (simp add: remaining_bytes_def rest_def)

lemma rest_new_reader [simp]: "rest (new_reader bs) = bs"
  by (simp add: rest_def new_reader_def)

lemma rest_advance [simp]: "rest (advance n r) = drop n (rest r)"
  by (simp add: rest_def advance_def add.commute)

lemma advance_advance [simp]: "advance m (advance n r) = advance (n + m) r"
  by (simp add: advance_def add.assoc)

lemma advance_0 [simp]: "advance 0 r = r"
  by (simp add: advance_def)

lemma read_value_fold:
  "foldl (\<lambda>(value, r) i. (value OR push_bit (8 * i) (ucast (rsrc r ! rpos r)), r\<lparr>rpos := rpos r + 1\<rparr>))
     (0 :: 'a::len word, r) [0..<n] =
   (foldl (\<lambda>v i. v OR push_bit (8 * i) (ucast (rsrc r ! (rpos r + i)))) 0 [0..<n], advance n r)"
  by (induction n) (simp_all add: advance_def)

lemma read_value_eq:
  "read_value r =
     (if sizeof (0 :: 'a::len word) \<le> length (rest r)
      then Inr (of_le_bytes (take (sizeof (0 :: 'a word)) (rest r)) :: 'a word,
                advance (sizeof (0 :: 'a word)) r)
      else Inl truncated)"
proof -
  let ?n = "sizeof (0 :: 'a word)"
  have "foldl (\<lambda>v i. v OR push_bit (8 * i) (ucast (rsrc r ! (rpos r + i)))) (0 :: 'a word) [0..<?n] =
      of_le_bytes (take ?n (rest r))" if "?n \<le> length (rest r)"
    unfolding of_le_bytes_def using that
    by (intro foldl_cong) (auto simp: rest_def min_def)
  then show ?thesis
    unfolding read_value_def read_value_fold
    by (simp add: remaining_bytes_rest ensure_def)
qed

lemma read_u8_eq:
  "read_u8 r = (case rest r of [] \<Rightarrow> Inl truncated | b # _ \<Rightarrow> Inr (b, advance 1 r))"
  by (cases "rest r") (simp_all add: read_u8_def read_value_eq of_le_bytes_def)

lemma read_u32_eq:
  "read_u32 r = (if 4 \<le> length (rest r) then Inr (of_le_bytes (take 4 (rest r)), advance 4 r)
                 else Inl truncated)"
  by (simp add: read_u32_def read_value_eq)

lemma read_u64_eq:
  "read_u64 r = (if 8 \<le> length (rest r) then Inr (of_le_bytes (take 8 (rest r)), advance 8 r)
                 else Inl truncated)"
  by (simp add: read_u64_def read_value_eq)

lemma drop_rpos_rest: "drop (rpos r) (rsrc r) = rest r"
  by (simp add: rest_def)

lemma advance_fold: "r\<lparr>rpos := rpos r + n\<rparr> = advance n r"
  by (simp add: advance_def)

lemma read_bytes_eq:
  "read_bytes r =
     bindE (read_u32 r) (\<lambda>(len, r).
       if unat len \<le> length (rest r) then Inr (take (unat len) (rest r), advance (unat len) r)
       else Inl truncated)"
  unfolding read_bytes_def drop_rpos_rest advance_fold
  by (intro bindE_cong refl) (auto simp: remaining_bytes_rest ensure_def)

lemma read_string_bytes:
  "read_string r = bindE (read_bytes r) (\<lambda>(bs, r). Inr (bytes_string bs, r))"
  unfolding read_string_def read_bytes_def
  by (cases "read_u32 r") (auto simp: ensure_def)

lemma unat_u32_prefix: "n < 2 ^ 32 \<Longrightarrow> unat (word_of_nat n :: u32) = n"
  by (simp add: unat_of_nat take_bit_eq_mod)

lemma of_le_bytes_u32_prefix [simp]: "of_le_bytes (u32_prefix n) = (word_of_nat n :: u32)"
  by (simp add: u32_prefix_def)

section \<open>The interface of a parser: it never leaves the buffer\<close>

text \<open>
  A parser that succeeds has moved its cursor forward inside the buffer; one that fails throws
  the reader's \<open>SerializeError\<close> and nothing else.
\<close>

locale cursor_parser =
  fixes p :: "'a parser"
  assumes moves: "p r = Inr (x, r') \<Longrightarrow> \<exists>n \<le> length (rest r). r' = advance n r"
    and fails: "p r = Inl e \<Longrightarrow> e = truncated"
begin

lemma stays_in_buffer:
  assumes "p r = Inr (x, r')" and "rpos r \<le> length (rsrc r)"
  shows "rsrc r' = rsrc r \<and> rpos r \<le> rpos r' \<and> rpos r' \<le> length (rsrc r')"
  using moves [OF assms(1)] assms(2) by (auto simp: advance_def rest_def)

lemma consumes_suffix:
  assumes "p r = Inr (x, r')"
  shows "\<exists>used. rest r = used @ rest r'"
proof -
  from moves [OF assms] obtain n where "r' = advance n r" by blast
  then have "rest r = take n (rest r) @ rest r'" by simp
  then show ?thesis by blast
qed

lemma read_n_moves: "read_n k p r = Inr (xs, r') \<Longrightarrow> \<exists>n \<le> length (rest r). r' = advance n r"
proof (induction k arbitrary: r xs)
  case 0
  then show ?case by (auto intro: exI [of _ 0])
next
  case (Suc k)
  from Suc.prems obtain x r1 ys where
    1: "p r = Inr (x, r1)" and 2: "read_n k p r1 = Inr (ys, r')"
    by (auto simp: bindE_eq_Inr)
  from moves [OF 1] obtain n where n: "n \<le> length (rest r)" "r1 = advance n r" by blast
  from Suc.IH [OF 2] obtain m where "m \<le> length (rest r1)" "r' = advance m r1" by blast
  with n have "n + m \<le> length (rest r)" and "r' = advance (n + m) r" by auto
  then show ?case by blast
qed

lemma read_n_fails: "read_n k p r = Inl e \<Longrightarrow> e = truncated"
  by (induction k arbitrary: r) (auto simp: bindE_eq_Inl dest: fails)

lemma read_n_length: "read_n k p r = Inr (xs, r') \<Longrightarrow> length xs = k"
  by (induction k arbitrary: r xs) (auto simp: bindE_eq_Inr)

lemma read_n_cursor: "cursor_parser (read_n k p)"
  by unfold_locales (auto dest: read_n_moves read_n_fails)

end

lemma cursor_parser_bind:
  assumes "cursor_parser p" and "\<And>x. cursor_parser (q x)"
  shows "cursor_parser (\<lambda>r. bindE (p r) (\<lambda>(x, r). q x r))"
proof
  fix r y r'
  assume "bindE (p r) (\<lambda>(x, r). q x r) = Inr (y, r')"
  then obtain x r1 where 1: "p r = Inr (x, r1)" and 2: "q x r1 = Inr (y, r')"
    by (auto simp: bindE_eq_Inr)
  from cursor_parser.moves [OF assms(1) 1] obtain n
    where n: "n \<le> length (rest r)" "r1 = advance n r" by blast
  from cursor_parser.moves [OF assms(2) 2] obtain m
    where "m \<le> length (rest r1)" "r' = advance m r1" by blast
  with n have "n + m \<le> length (rest r)" and "r' = advance (n + m) r" by auto
  then show "\<exists>n \<le> length (rest r). r' = advance n r" by blast
next
  fix r e
  assume "bindE (p r) (\<lambda>(x, r). q x r) = Inl e"
  then show "e = truncated"
    using cursor_parser.fails [OF assms(1)] cursor_parser.fails [OF assms(2)]
    by (fastforce simp: bindE_eq_Inl)
qed

lemma cursor_parser_return: "cursor_parser (\<lambda>r. Inr (x, r))"
  by unfold_locales (auto intro: exI [of _ 0])

interpretation rd_u8: cursor_parser read_u8
  by unfold_locales (auto simp: read_u8_eq split: list.splits)

interpretation rd_u32: cursor_parser read_u32
  by unfold_locales (auto simp: read_u32_eq split: if_splits)

interpretation rd_u64: cursor_parser read_u64
  by unfold_locales (auto simp: read_u64_eq split: if_splits)

interpretation rd_bytes: cursor_parser read_bytes
proof -
  have "cursor_parser (\<lambda>r. bindE (read_u32 r) (\<lambda>(len, r).
      (\<lambda>len r. if unat len \<le> length (rest r) then Inr (take (unat len) (rest r), advance (unat len) r)
              else Inl truncated) len r))"
    by (rule cursor_parser_bind [OF rd_u32.cursor_parser_axioms]) (unfold_locales, auto split: if_splits)
  then show "cursor_parser read_bytes"
    by (simp add: read_bytes_eq [abs_def])
qed

interpretation rd_string: cursor_parser read_string
  unfolding read_string_bytes [abs_def]
  by (rule cursor_parser_bind [OF rd_bytes.cursor_parser_axioms]) (rule cursor_parser_return)

section \<open>The interface of an encoding: decoding what was encoded\<close>

text \<open>
  \<open>enc\<close> is what the writer appends for a value, \<open>dec\<close> the code that reads it back, \<open>ok\<close> the
  values the format can represent. The law says the reader finds the value, whatever follows it.
\<close>

locale codec =
  fixes enc :: "'a \<Rightarrow> bytes" and dec :: "'a parser" and ok :: "'a \<Rightarrow> bool"
  assumes dec_enc: "rest r = enc x @ post \<Longrightarrow> ok x \<Longrightarrow> dec r = Inr (x, advance (length (enc x)) r)"
begin

lemma prefix_free:
  assumes "ok x" and "ok y" and "enc x @ s = enc y @ t"
  shows "x = y \<and> s = t"
proof -
  have "dec (new_reader (enc x @ s)) = Inr (x, advance (length (enc x)) (new_reader (enc x @ s)))"
    by (rule dec_enc [OF _ assms(1)]) simp
  moreover have "dec (new_reader (enc x @ s)) = Inr (y, advance (length (enc y)) (new_reader (enc x @ s)))"
    by (rule dec_enc [OF _ assms(2)]) (simp add: assms(3))
  ultimately have "x = y" by simp
  with assms(3) show ?thesis by simp
qed

lemma enc_inject: "ok x \<Longrightarrow> ok y \<Longrightarrow> enc x = enc y \<Longrightarrow> x = y"
  using prefix_free [of x y "[]" "[]"] by simp

lemma read_n_enc:
  assumes "list_all ok xs" and "rest r = concat (map enc xs) @ post"
  shows "read_n (length xs) dec r = Inr (xs, advance (length (concat (map enc xs))) r)"
  using assms
proof (induction xs arbitrary: r)
  case Nil
  then show ?case by simp
next
  case (Cons x xs)
  have "dec r = Inr (x, advance (length (enc x)) r)"
    by (rule dec_enc [where post = "concat (map enc xs) @ post"]) (use Cons.prems in simp_all)
  moreover have "read_n (length xs) dec (advance (length (enc x)) r) =
      Inr (xs, advance (length (concat (map enc xs))) (advance (length (enc x)) r))"
    by (rule Cons.IH) (use Cons.prems in simp_all)
  ultimately show ?case by simp
qed

end

definition lp_bytes :: "bytes \<Rightarrow> bytes" where
  "lp_bytes bs = u32_prefix (length bs) @ bs"

lemma length_lp_bytes [simp, size_simps]: "length (lp_bytes bs) = 4 + length bs"
  by (simp add: lp_bytes_def)

interpretation c_u8: codec "\<lambda>b. [b]" read_u8 "\<lambda>_. True"
  by unfold_locales (simp add: read_u8_eq)

interpretation c_u32: codec le_bytes read_u32 "\<lambda>_. True"
  by unfold_locales (simp add: read_u32_eq)

interpretation c_u64: codec le_bytes read_u64 "\<lambda>_. True"
  by unfold_locales (simp add: read_u64_eq)

interpretation c_bytes: codec lp_bytes read_bytes "\<lambda>bs. length bs < 2 ^ 32"
  by unfold_locales (simp add: read_bytes_eq read_u32_eq lp_bytes_def unat_u32_prefix)

interpretation c_string: codec "\<lambda>s. lp_bytes (string_bytes s)" read_string "\<lambda>s. length s < 2 ^ 32"
proof
  fix s r post
  assume "rest r = lp_bytes (string_bytes s) @ post" and "length s < 2 ^ 32"
  then show "read_string r = Inr (s, advance (length (lp_bytes (string_bytes s))) r)"
    using c_bytes.dec_enc [of r "string_bytes s" post] by (simp add: read_string_bytes)
qed

lemma le_bytes_inject [simp]:
  "le_bytes x = le_bytes y \<longleftrightarrow> x = y" "le_bytes v = le_bytes w \<longleftrightarrow> v = w"
  for x y :: u32 and v w :: u64
  using c_u32.enc_inject [of x y] c_u64.enc_inject [of v w] by auto

section \<open>What readers return\<close>

text \<open>
  The contract of a reader that checks its bounds: what it returns is well-formed, and no bigger than
  the bytes it consumed. Loops of such readers have it again.
\<close>

locale sized_parser =
  fixes p :: "'a parser" and good :: "'a \<Rightarrow> bool" and sz :: "'a \<Rightarrow> nat"
  assumes sized: "p r = Inr (x, r') \<Longrightarrow> good x \<and> length (rest r') + sz x \<le> length (rest r)"
begin

lemma read_n_sized:
  "read_n n p r = Inr (xs, r') \<Longrightarrow>
    list_all good xs \<and> length xs = n \<and> length (rest r') + sum_list (map sz xs) \<le> length (rest r)"
proof (induction n arbitrary: r xs)
  case (Suc n)
  from Suc.prems obtain x r1 ys where "p r = Inr (x, r1)" "read_n n p r1 = Inr (ys, r')" "xs = x # ys"
    by (auto simp: bindE_eq_Inr)
  with sized Suc.IH [of r1 ys] show ?case by fastforce
qed simp

end

interpretation sz_u8: sized_parser read_u8 "\<lambda>_. True" "\<lambda>_. 1"
  by unfold_locales (auto simp: read_u8_eq split: list.splits)

interpretation sz_u32: sized_parser read_u32 "\<lambda>_. True" "\<lambda>_. 4"
  by unfold_locales (auto simp: read_u32_eq split: if_splits)

interpretation sz_u64: sized_parser read_u64 "\<lambda>_. True" "\<lambda>_. 8"
  by unfold_locales (auto simp: read_u64_eq split: if_splits)

lemma unat_u32_less: "unat (n :: u32) < 2 ^ 32"
  using unsigned_less [of n] by simp

interpretation sz_bytes: sized_parser read_bytes "\<lambda>bs. length bs < 2 ^ 32" "\<lambda>bs. 4 + length bs"
proof
  fix r x r'
  assume "read_bytes r = Inr (x, r')"
  then obtain n r1 where u: "read_u32 r = Inr (n, r1)" and n: "unat n \<le> length (rest r1)"
    and x: "x = take (unat n) (rest r1)" "r' = advance (unat n) r1"
    by (auto simp: read_bytes_def bindE_eq_Inr ensure_def remaining_bytes_rest rest_def advance_def split: if_splits)
  with sz_u32.sized [OF u] unat_u32_less [of n]
  show "length x < 2 ^ 32 \<and> length (rest r') + (4 + length x) \<le> length (rest r)" by simp
qed

interpretation sz_string: sized_parser read_string "\<lambda>s. length s < 2 ^ 32" "\<lambda>s. 4 + length s"
proof
  fix r x r'
  assume "read_string r = Inr (x, r')"
  then obtain bs where "read_bytes r = Inr (bs, r')" "x = bytes_string bs"
    by (auto simp: read_string_def read_bytes_def bindE_eq_Inr)
  with sz_bytes.sized show "length x < 2 ^ 32 \<and> length (rest r') + (4 + length x) \<le> length (rest r)"
    by fastforce
qed

section \<open>Readers read what is there\<close>

text \<open>
  A reader that succeeds has consumed bytes that denote its result: nothing is made up, nothing beyond the
  buffer is read.
\<close>

locale faithful_parser =
  fixes p :: "'a parser" and denotes :: "bytes \<Rightarrow> 'a \<Rightarrow> bool"
  assumes faithful: "p r = Inr (x, r') \<Longrightarrow> \<exists>bs. rest r = bs @ rest r' \<and> denotes bs x"
begin

lemma read_n_faithful:
  "read_n n p r = Inr (xs, r') \<Longrightarrow> \<exists>bss. rest r = concat bss @ rest r' \<and> list_all2 denotes bss xs \<and> length xs = n"
proof (induction n arbitrary: r xs)
  case (Suc n)
  from Suc.prems obtain x r1 ys where x: "p r = Inr (x, r1)" and ys: "read_n n p r1 = Inr (ys, r')" "xs = x # ys"
    by (auto simp: bindE_eq_Inr)
  from faithful [OF x] obtain bs where "rest r = bs @ rest r1" "denotes bs x" by blast
  moreover from Suc.IH [OF ys(1)] obtain bss where "rest r1 = concat bss @ rest r'" "list_all2 denotes bss ys" "length ys = n"
    by blast
  ultimately show ?case using ys(2) by (intro exI [of _ "bs # bss"]) simp
qed simp

end

interpretation fp_u8: faithful_parser read_u8 "\<lambda>bs x. bs = [x]"
  by unfold_locales (auto simp: read_u8_eq split: list.splits)

lemma le_bytes_of_take:
  "sizeof (0 :: u32) \<le> length bs \<Longrightarrow> le_bytes (of_le_bytes (take 4 bs) :: u32) = take 4 bs"
  "sizeof (0 :: u64) \<le> length bs \<Longrightarrow> le_bytes (of_le_bytes (take 8 bs) :: u64) = take 8 bs"
  by (rule le_bytes_of_le_bytes; simp)+

interpretation fp_u32: faithful_parser read_u32 "\<lambda>bs x. bs = le_bytes x"
  by unfold_locales (auto simp: read_u32_eq le_bytes_of_take split: if_splits)

interpretation fp_u64: faithful_parser read_u64 "\<lambda>bs x. bs = le_bytes x"
  by unfold_locales (auto simp: read_u64_eq le_bytes_of_take split: if_splits)

interpretation fp_bytes: faithful_parser read_bytes "\<lambda>bs x. bs = lp_bytes x"
proof
  fix r x r'
  assume "read_bytes r = Inr (x, r')"
  then obtain n r1 where u: "read_u32 r = Inr (n, r1)" and n: "unat n \<le> length (rest r1)"
    and x: "x = take (unat n) (rest r1)" "r' = advance (unat n) r1"
    by (auto simp: read_bytes_def bindE_eq_Inr ensure_def remaining_bytes_rest rest_def advance_def split: if_splits)
  with fp_u32.faithful [OF u] show "\<exists>bs. rest r = bs @ rest r' \<and> bs = lp_bytes x"
    by (auto simp: lp_bytes_def u32_prefix_def)
qed

interpretation fp_string: faithful_parser read_string "\<lambda>bs x. bs = lp_bytes (string_bytes x)"
proof
  fix r x r'
  assume "read_string r = Inr (x, r')"
  then obtain bs where "read_bytes r = Inr (bs, r')" "x = bytes_string bs"
    by (auto simp: read_string_bytes bindE_eq_Inr)
  with fp_bytes.faithful show "\<exists>bs. rest r = bs @ rest r' \<and> bs = lp_bytes (string_bytes x)" by fastforce
qed

section \<open>Properties\<close>

text \<open>C31: values written one after another with \<open>write_u8\<close>, \<open>write_u32\<close>, \<open>write_u64\<close>,
  \<open>write_bytes\<close> and \<open>write_string\<close> are read back, in the same order and unchanged, by the
  corresponding reads of a \<open>ByteReader\<close> over the finished buffer, and the reader is then at its
  end; the byte fields only have to be shorter than \<open>2 ^ 32\<close>.\<close>

theorem serializer_round_trip:
  assumes "length bs < 2 ^ 32" and "length str < 2 ^ 32"
  shows "bindE (read_u8 (new_reader (take_buffer
             (write_string str (write_bytes bs (write_u64 d (write_u32 w (write_u8 b new_writer)))))))) (\<lambda>(b', r).
         bindE (read_u32 r) (\<lambda>(w', r).
         bindE (read_u64 r) (\<lambda>(d', r).
         bindE (read_bytes r) (\<lambda>(bs', r).
         bindE (read_string r) (\<lambda>(str', r).
           Inr (b', w', d', bs', str', remaining_bytes r)))))) = Inr (b, w, d, bs, str, 0)"
proof -
  let ?src = "take_buffer (write_string str (write_bytes bs (write_u64 d (write_u32 w (write_u8 b new_writer)))))"
  have src: "?src = [b] @ le_bytes w @ le_bytes d @ lp_bytes bs @ lp_bytes (string_bytes str)"
    by (simp add: take_buffer_def lp_bytes_def)
  show ?thesis
    unfolding src using assms
    by (simp add: c_u8.dec_enc c_u32.dec_enc c_u64.dec_enc c_bytes.dec_enc
        c_string.dec_enc [where x = str and post = "[]"] remaining_bytes_rest drop_Cons')
qed

theorem serializer_round_trip_witness:
  "bindE (read_u8 (new_reader (take_buffer
       (write_string ''hi'' (write_bytes [1, 2] (write_u64 5 (write_u32 7 (write_u8 9 new_writer)))))))) (\<lambda>(b', r).
     bindE (read_u32 r) (\<lambda>(w', r).
     bindE (read_u64 r) (\<lambda>(d', r).
     bindE (read_bytes r) (\<lambda>(bs', r).
     bindE (read_string r) (\<lambda>(str', r).
       Inr (b', w', d', bs', str', remaining_bytes r)))))) = Inr (9, 7, 5, [1, 2], ''hi'', 0)"
  by (rule serializer_round_trip) simp_all

end
