(* ===== verification/Astro_Hash.thy ===== *)
theory Astro_Hash
  imports Astro_Prelude
begin

text \<open>
  include/astro/core/hash.hpp and src/core/hash.cpp: SHA-256, HASH160 and hexadecimal output.
  OpenSSL itself is not part of the repository: the calls the code makes are the fields of the
  record \<open>openssl\<close>, an argument of every definition that reaches them. A call that can fail has a
  value for failure, so each early return of the code is a branch of the model.
\<close>

section \<open>OpenSSL, as the code calls it\<close>

datatype md = EVP_sha256 | EVP_ripemd160

text \<open>An \<open>EVP_PKEY\<close> pointer; a null pointer is \<open>None\<close> of \<open>pkey option\<close>. A memory \<open>BIO\<close> is the
  bytes it delivers.\<close>

type_synonym pkey = nat
type_synonym bio = bytes

record openssl =
  EVP_MD_CTX_new :: bool
  EVP_DigestInit_ex :: "md \<Rightarrow> bool"
  EVP_DigestUpdate :: "md \<Rightarrow> bytes \<Rightarrow> bool"
  EVP_DigestFinal_ex :: "md \<Rightarrow> bytes \<Rightarrow> bytes option"
  OPENSSL_init_crypto :: bool
  ERR_error_string :: string
  BIO_new :: bool
  BIO_new_mem_buf :: "bytes \<Rightarrow> 32 word \<Rightarrow> bio option"
  PEM_write_bio_PrivateKey :: "pkey \<Rightarrow> bytes option"
  PEM_write_bio_PUBKEY :: "pkey \<Rightarrow> bytes option"
  PEM_read_bio_PrivateKey :: "bio option \<Rightarrow> pkey option"
  PEM_read_bio_PUBKEY :: "bio \<Rightarrow> pkey option"
  EVP_PKEY_CTX_new_from_name :: bool
  EVP_PKEY_keygen_init :: bool
  EVP_PKEY_CTX_set_params :: "string \<Rightarrow> bool"
  EVP_PKEY_keygen :: "string \<Rightarrow> pkey option"
  EVP_DigestSignInit :: "pkey option \<Rightarrow> bool"
  EVP_DigestSignUpdate :: "pkey option \<Rightarrow> bytes \<Rightarrow> bool"
  EVP_DigestSignLength :: "pkey option \<Rightarrow> bytes \<Rightarrow> nat option"
  EVP_DigestSignFinal :: "pkey option \<Rightarrow> bytes \<Rightarrow> bytes option"
  EVP_DigestVerifyInit :: "pkey \<Rightarrow> bool"
  EVP_DigestVerifyUpdate :: "pkey \<Rightarrow> bytes \<Rightarrow> bool"
  EVP_DigestVerifyFinal :: "pkey \<Rightarrow> bytes \<Rightarrow> bytes \<Rightarrow> int"

section \<open>Digests\<close>

text \<open>\<open>Hash256\<close> and \<open>Hash160\<close> are \<open>std::array\<close>s: byte lists of length 32 and 20.\<close>

type_synonym Hash256 = bytes
type_synonym Hash160 = bytes

definition zero_array :: "nat \<Rightarrow> bytes" where
  "zero_array n = replicate n 0"

text \<open>Bytes stored from the start of an array, which keeps its length.\<close>

definition copy_into :: "bytes \<Rightarrow> bytes \<Rightarrow> bytes" where
  "copy_into out data = take (length out) data @ drop (length data) out"

definition sha256 :: "openssl \<Rightarrow> bytes \<Rightarrow> Hash256" where
  "sha256 E data =
     (let out = zero_array 32 in
      if \<not> EVP_MD_CTX_new E then out
      else if \<not> EVP_DigestInit_ex E EVP_sha256 then out
      else if \<not> EVP_DigestUpdate E EVP_sha256 data then out
      else case EVP_DigestFinal_ex E EVP_sha256 data of
             None \<Rightarrow> zero_array 32
           | Some digest \<Rightarrow> copy_into out digest)"

definition hash160 :: "openssl \<Rightarrow> bytes \<Rightarrow> Hash160" where
  "hash160 E data =
     (let sha = sha256 E data; out = zero_array 20 in
      if \<not> EVP_MD_CTX_new E then out
      else if \<not> EVP_DigestInit_ex E EVP_ripemd160 then out
      else if \<not> EVP_DigestUpdate E EVP_ripemd160 sha then out
      else case EVP_DigestFinal_ex E EVP_ripemd160 sha of
             None \<Rightarrow> zero_array 20
           | Some digest \<Rightarrow> copy_into out digest)"

definition hash_concat :: "openssl \<Rightarrow> bytes \<Rightarrow> bytes \<Rightarrow> Hash256" where
  "hash_concat E left right = sha256 E (left @ right)"

definition sha256_string :: "openssl \<Rightarrow> string \<Rightarrow> Hash256" where
  "sha256_string E s = sha256 E (string_bytes s)"

definition hash160_string :: "openssl \<Rightarrow> string \<Rightarrow> Hash160" where
  "hash160_string E s = hash160 E (string_bytes s)"

section \<open>Hexadecimal output\<close>

definition hex_digit :: "nat \<Rightarrow> char" where
  "hex_digit n = ''0123456789abcdef'' ! n"

text \<open>What a stream in \<open>std::hex\<close> prints for a non-negative \<open>int\<close>: no leading zeros.\<close>

fun hex_int :: "nat \<Rightarrow> string" where
  "hex_int n = (if n < 16 then [hex_digit n] else hex_int (n div 16) @ [hex_digit (n mod 16)])"

declare hex_int.simps [simp del]

definition setw :: "nat \<Rightarrow> string \<Rightarrow> string" where
  "setw n s = replicate (n - length s) (CHR ''0'') @ s"

definition toHex :: "bytes \<Rightarrow> string" where
  "toHex data = concat (map (\<lambda>b. setw 2 (hex_int (unat b))) data)"

section \<open>The interface of a digest\<close>

text \<open>A collision of a hash function: two inputs, both given, with one image.\<close>

definition collision :: "(bytes \<Rightarrow> bytes) \<Rightarrow> bytes \<Rightarrow> bytes \<Rightarrow> bool" where
  "collision H x y \<longleftrightarrow> x \<noteq> y \<and> H x = H y"

lemma collisionI: "x \<noteq> y \<Longrightarrow> H x = H y \<Longrightarrow> collision H x y"
  by (simp add: collision_def)

lemma collision_sym: "collision H x y \<Longrightarrow> collision H y x"
  by (auto simp: collision_def)

locale digest =
  fixes H :: "bytes \<Rightarrow> bytes" and width :: nat
  assumes length_H: "length (H x) = width"
begin

text \<open>The pair hash: two halves of the digest's own width can be told apart again.\<close>

lemma pair_inject:
  assumes "length a = width" "length b = width" "length c = width" "length d = width"
  shows "a @ b = c @ d \<longleftrightarrow> a = c \<and> b = d"
  using assms by simp

lemma pair_collision:
  assumes "H (a @ b) = H (c @ d)"
    and "length a = width" "length b = width" "length c = width" "length d = width"
    and "(a, b) \<noteq> (c, d)"
  shows "collision H (a @ b) (c @ d)"
  using assms by (auto simp: collision_def)

end

lemma length_copy_into [simp, size_simps]: "length (copy_into out data) = length out"
  by (simp add: copy_into_def)

lemma length_zero_array [simp, size_simps]: "length (zero_array n) = n"
  by (simp add: zero_array_def)

lemma length_sha256 [simp, size_simps]: "length (sha256 E data) = 32"
  by (simp add: sha256_def Let_def split: option.split)

lemma length_hash160 [simp, size_simps]: "length (hash160 E data) = 20"
  by (simp add: hash160_def Let_def split: option.split)

interpretation sha: digest "sha256 E" 32 for E
  by unfold_locales simp

interpretation rmd: digest "hash160 E" 20 for E
  by unfold_locales simp

lemma sha256_failed:
  assumes "\<not> EVP_MD_CTX_new E \<or> \<not> EVP_DigestInit_ex E EVP_sha256"
  shows "sha256 E data = zero_array 32"
  using assms by (auto simp: sha256_def Let_def)

lemma sha256_ok:
  assumes "EVP_MD_CTX_new E" and "EVP_DigestInit_ex E EVP_sha256"
    and "EVP_DigestUpdate E EVP_sha256 data" and "EVP_DigestFinal_ex E EVP_sha256 data = Some d"
    and "length d = 32"
  shows "sha256 E data = d"
  using assms by (simp add: sha256_def copy_into_def zero_array_def)

section \<open>Hexadecimal digits\<close>

lemma hex_digit_inj: "m < 16 \<Longrightarrow> n < 16 \<Longrightarrow> hex_digit m = hex_digit n \<longleftrightarrow> m = n"
proof -
  have d: "distinct ''0123456789abcdef''" and l: "length ''0123456789abcdef'' = 16" by simp_all
  show "m < 16 \<Longrightarrow> n < 16 \<Longrightarrow> hex_digit m = hex_digit n \<longleftrightarrow> m = n"
    unfolding hex_digit_def by (subst nth_eq_iff_index_eq [OF d]) (simp_all only: l)
qed

lemma hex_digit_0: "hex_digit 0 = CHR ''0''"
  by (simp add: hex_digit_def)

lemma setw_hex_byte: "n < 256 \<Longrightarrow> setw 2 (hex_int n) = [hex_digit (n div 16), hex_digit (n mod 16)]"
proof (cases "n < 16")
  case True
  then show ?thesis by (simp add: hex_int.simps [of n] setw_def hex_digit_0)
next
  case False
  assume "n < 256"
  with False have "n div 16 < 16" by (simp add: div_less_iff_less_mult)
  with False show ?thesis by (simp add: hex_int.simps [of n] hex_int.simps [of "n div 16"] setw_def)
qed

lemma unat_u8_less: "unat (b :: u8) < 256"
  using unsigned_less [of b] by simp

lemma toHex_simps:
  "toHex [] = []"
  "toHex (b # bs) = hex_digit (unat b div 16) # hex_digit (unat b mod 16) # toHex bs"
  by (simp_all add: toHex_def setw_hex_byte unat_u8_less)

lemma length_toHex [simp, size_simps]: "length (toHex data) = 2 * length data"
  by (induction data) (simp_all add: toHex_simps)

lemma hex_digit_in: "n < 16 \<Longrightarrow> hex_digit n \<in> set ''0123456789abcdef''"
  unfolding hex_digit_def by (rule nth_mem) simp

lemma toHex_digits: "set (toHex xs) \<subseteq> set ''0123456789abcdef''"
proof (induction xs)
  case (Cons b bs)
  have "unat b div 16 < 16" using unat_u8_less [of b] by (simp add: div_less_iff_less_mult)
  with Cons hex_digit_in [of "unat b div 16"] hex_digit_in [of "unat b mod 16"] show ?case
    by (simp only: toHex_simps list.set insert_subset)
qed (simp add: toHex_simps)

lemma toHex_inject: "toHex xs = toHex ys \<Longrightarrow> xs = ys"
proof (induction xs arbitrary: ys)
  case Nil
  then have "length (toHex ys) = 0" by (simp add: toHex_simps)
  then show ?case by simp
next
  case (Cons x xs)
  then have "length (toHex ys) = 2 * length (x # xs)" by (metis length_toHex)
  then obtain y ys' where ys: "ys = y # ys'" by (cases ys) auto
  have "unat x div 16 < 16" "unat y div 16 < 16"
    using unat_u8_less by (simp_all add: div_less_iff_less_mult)
  with Cons.prems ys have "unat x div 16 = unat y div 16" "unat x mod 16 = unat y mod 16"
    and tl: "toHex xs = toHex ys'"
    by (simp_all add: toHex_simps hex_digit_inj)
  then have "unat x = unat y" by (metis div_mult_mod_eq)
  with Cons.IH [OF tl] ys show ?case by (simp add: word_unat_eq_iff)
qed

section \<open>Properties\<close>

text \<open>\<open>toHex\<close> writes two digits for every byte, only the digits \<open>0-9a-f\<close>, and is injective: the
  printed form of a hash identifies it.\<close>

theorem toHex_faithful:
  "length (toHex xs) = 2 * length xs \<and> list_all (\<lambda>c. c \<in> set ''0123456789abcdef'') (toHex xs) \<and>
   (toHex xs = toHex ys \<longleftrightarrow> xs = ys)"
proof (intro conjI)
  show "list_all (\<lambda>c. c \<in> set ''0123456789abcdef'') (toHex xs)"
    unfolding list_all_iff using toHex_digits by blast
  show "toHex xs = toHex ys \<longleftrightarrow> xs = ys" using toHex_inject by blast
qed simp

end
