(* ===== verification/Astro_Keys.thy ===== *)
theory Astro_Keys
  imports Astro_Hash
begin

text \<open>
  include/astro/core/keys.hpp and src/core/keys.cpp: key generation, signing and verification
  over PEM-encoded keys. Every check of an OpenSSL return value is a branch; where the code checks
  nothing (a null \<open>BIO\<close> or key in \<open>sign_message\<close>) the null value is passed on, as the code does.
\<close>

record KeyPair =
  privkey_pem :: bytes
  pubkey_pem :: bytes

definition throw_openssl_error :: "openssl \<Rightarrow> string \<Rightarrow> exn" where
  "throw_openssl_error E context = RuntimeError (context @ '': '' @ ERR_error_string E)"

definition export_key_pem :: "openssl \<Rightarrow> pkey \<Rightarrow> bool \<Rightarrow> exn + bytes" where
  "export_key_pem E key is_private =
     (if \<not> BIO_new E then Inl (throw_openssl_error E ''BIO_new'')
      else bindE
        (if is_private
         then (case PEM_write_bio_PrivateKey E key of
                 None \<Rightarrow> Inl (throw_openssl_error E ''PEM_write_bio_PrivateKey'')
               | Some data \<Rightarrow> Inr data)
         else (case PEM_write_bio_PUBKEY E key of
                 None \<Rightarrow> Inl (throw_openssl_error E ''PEM_write_bio_PUBKEY'')
               | Some data \<Rightarrow> Inr data))
        (\<lambda>data. if length data = 0 then Inl (throw_openssl_error E ''BIO_get_mem_data'')
                else Inr data))"

definition crypto_init :: "openssl \<Rightarrow> bool" where
  "crypto_init E = (if \<not> OPENSSL_init_crypto E then False else True)"

text \<open>
  The library is released by \<open>crypto_shutdown\<close> before a process ends; OpenSSL forbids calls after that
  (\<open>OPENSSL_cleanup\<close>(3)). \<open>in_use\<close> says whether a thread is still running that will call it again.
\<close>

datatype crypto_state = Crypto_unused | Crypto_ready | Crypto_released | Crypto_used_after_release

definition crypto_shutdown :: "bool \<Rightarrow> crypto_state \<Rightarrow> crypto_state" where
  "crypto_shutdown in_use s = (if in_use then Crypto_used_after_release else Crypto_released)"

definition generate_ec_keypair :: "openssl \<Rightarrow> string \<Rightarrow> exn + KeyPair" where
  "generate_ec_keypair E curve_name =
     (if \<not> EVP_PKEY_CTX_new_from_name E
      then Inl (throw_openssl_error E ''EVP_PKEY_CTX_new_from_name'')
      else if \<not> EVP_PKEY_keygen_init E
      then Inl (throw_openssl_error E ''EVP_PKEY_keygen_init'')
      else if \<not> EVP_PKEY_CTX_set_params E curve_name
      then Inl (throw_openssl_error E ''EVP_PKEY_CTX_set_params'')
      else case EVP_PKEY_keygen E curve_name of
             None \<Rightarrow> Inl (throw_openssl_error E ''EVP_PKEY_keygen'')
           | Some key \<Rightarrow>
               bindE (export_key_pem E key True) (\<lambda>priv_pem.
               bindE (export_key_pem E key False) (\<lambda>pub_pem.
               Inr \<lparr>privkey_pem = priv_pem, pubkey_pem = pub_pem\<rparr>)))"

definition default_curve :: string where
  "default_curve = ''secp256k1''"

definition sign_message :: "openssl \<Rightarrow> bytes \<Rightarrow> bytes \<Rightarrow> exn + bytes" where
  "sign_message E priv_bytes message =
     (let bio = BIO_new_mem_buf E priv_bytes (word_of_nat (length priv_bytes));
          key = PEM_read_bio_PrivateKey E bio
      in if \<not> EVP_MD_CTX_new E then Inl (throw_openssl_error E ''EVP_MD_CTX_new'')
         else if \<not> EVP_DigestSignInit E key
         then Inl (throw_openssl_error E ''EVP_DigestSignInit'')
         else if \<not> EVP_DigestSignUpdate E key message
         then Inl (throw_openssl_error E ''EVP_DigestSignUpdate'')
         else case EVP_DigestSignLength E key message of
                None \<Rightarrow> Inl (throw_openssl_error E ''EVP_DigestSignalFinal (get length)'')
              | Some sig_len \<Rightarrow>
                  (case EVP_DigestSignFinal E key message of
                     None \<Rightarrow> Inl (throw_openssl_error E ''EVP_DigestSignalFinal (get signature)'')
                   | Some sig \<Rightarrow> Inr (take (length sig) (copy_into (zero_array sig_len) sig))))"

definition verify_message :: "openssl \<Rightarrow> bytes \<Rightarrow> bytes \<Rightarrow> bytes \<Rightarrow> exn + bool" where
  "verify_message E pub_bytes message signature =
     (case BIO_new_mem_buf E pub_bytes (word_of_nat (length pub_bytes)) of
        None \<Rightarrow> Inl (throw_openssl_error E ''BIO_new_mem_buf'')
      | Some bio \<Rightarrow>
          (case PEM_read_bio_PUBKEY E bio of
             None \<Rightarrow> Inl (throw_openssl_error E ''PEM_read_bio_PUBKEY'')
           | Some key \<Rightarrow>
               if \<not> EVP_MD_CTX_new E then Inl (throw_openssl_error E ''EVP_MD_CTX_new'')
               else if \<not> EVP_DigestVerifyInit E key
               then Inl (throw_openssl_error E ''EVP_DigestVerifyInit'')
               else if \<not> EVP_DigestVerifyUpdate E key message
               then Inl (throw_openssl_error E ''EVP_DigestVerifyUpdate'')
               else Inr (EVP_DigestVerifyFinal E key message signature = 1)))"

definition sign_message_string :: "openssl \<Rightarrow> bytes \<Rightarrow> string \<Rightarrow> exn + bytes" where
  "sign_message_string E priv_bytes message = sign_message E priv_bytes (string_bytes message)"

definition verify_message_string :: "openssl \<Rightarrow> bytes \<Rightarrow> string \<Rightarrow> bytes \<Rightarrow> exn + bool" where
  "verify_message_string E pub_bytes message signature =
     verify_message E pub_bytes (string_bytes message) signature"

section \<open>Documented behaviour of OpenSSL\<close>

text \<open>
  A key written as PEM is read back as the same key, from a \<open>BIO\<close> over exactly the PEM bytes as
  long as their number fits an \<open>int\<close> (\<open>PEM_read_bio_PrivateKey\<close>(3), \<open>BIO_new_mem_buf\<close>(3)).
\<close>

definition pem_round_trip :: "openssl \<Rightarrow> bool" where
  "pem_round_trip E \<longleftrightarrow>
     (\<forall>bs. length bs < 2 ^ 31 \<longrightarrow> bs \<noteq> [] \<longrightarrow> BIO_new_mem_buf E bs (word_of_nat (length bs)) = Some bs) \<and>
     (\<forall>k pem. PEM_write_bio_PrivateKey E k = Some pem \<longrightarrow>
        length pem < 2 ^ 31 \<and> PEM_read_bio_PrivateKey E (Some pem) = Some k) \<and>
     (\<forall>k pem. PEM_write_bio_PUBKEY E k = Some pem \<longrightarrow>
        length pem < 2 ^ 31 \<and> PEM_read_bio_PUBKEY E pem = Some k)"

text \<open>
  A key that can sign a message with SHA-256 can verify one, and verifying under a key accepts what signing
  with the same key produced; the signature fits the buffer size announced for it
  (\<open>EVP_DigestVerifyInit\<close>(3), \<open>EVP_DigestSignFinal\<close>(3)). Nothing is said of keys that cannot sign.
\<close>

definition ecdsa_correct :: "openssl \<Rightarrow> bool" where
  "ecdsa_correct E \<longleftrightarrow>
     (\<forall>k msg. EVP_DigestSignInit E (Some k) \<longrightarrow> EVP_DigestSignUpdate E (Some k) msg \<longrightarrow>
        EVP_DigestVerifyInit E k \<and> EVP_DigestVerifyUpdate E k msg) \<and>
     (\<forall>k msg n sig. EVP_DigestSignLength E (Some k) msg = Some n \<longrightarrow>
        EVP_DigestSignFinal E (Some k) msg = Some sig \<longrightarrow>
        length sig \<le> n \<and> EVP_DigestVerifyFinal E k msg sig = 1)"

lemma take_copy_into_zero: "length sig \<le> n \<Longrightarrow> take (length sig) (copy_into (zero_array n) sig) = sig"
  by (simp add: copy_into_def zero_array_def)

lemma export_key_pem_private:
  "export_key_pem E key True = Inr pem \<longleftrightarrow>
     BIO_new E \<and> PEM_write_bio_PrivateKey E key = Some pem \<and> pem \<noteq> []"
  by (auto simp: export_key_pem_def bindE_eq_Inr split: option.splits if_splits)

lemma export_key_pem_public:
  "export_key_pem E key False = Inr pem \<longleftrightarrow>
     BIO_new E \<and> PEM_write_bio_PUBKEY E key = Some pem \<and> pem \<noteq> []"
  by (auto simp: export_key_pem_def bindE_eq_Inr split: option.splits if_splits)

lemma generate_ec_keypairD:
  assumes "generate_ec_keypair E curve = Inr kp"
  obtains key where "EVP_PKEY_keygen E curve = Some key"
    and "PEM_write_bio_PrivateKey E key = Some (privkey_pem kp)" and "privkey_pem kp \<noteq> []"
    and "PEM_write_bio_PUBKEY E key = Some (pubkey_pem kp)" and "pubkey_pem kp \<noteq> []"
  using assms
  by (auto simp: generate_ec_keypair_def bindE_eq_Inr export_key_pem_private export_key_pem_public
      split: if_splits option.splits)

lemma sign_messageD:
  assumes "sign_message E pem msg = Inr sig"
    and "BIO_new_mem_buf E pem (word_of_nat (length pem)) = Some pem"
    and "PEM_read_bio_PrivateKey E (Some pem) = Some key"
  obtains n s where "EVP_MD_CTX_new E" and "EVP_DigestSignInit E (Some key)" and "EVP_DigestSignUpdate E (Some key) msg"
    and "EVP_DigestSignLength E (Some key) msg = Some n"
    and "EVP_DigestSignFinal E (Some key) msg = Some s"
    and "sig = take (length s) (copy_into (zero_array n) s)"
  using assms by (auto simp: sign_message_def Let_def split: if_splits option.splits)

text \<open>A signature made with the private half of a generated pair verifies under its public half.\<close>

lemma verify_message_sign_message:
  assumes "pem_round_trip E" and "ecdsa_correct E"
    and "generate_ec_keypair E curve = Inr kp"
    and "sign_message E (privkey_pem kp) msg = Inr sig"
  shows "verify_message E (pubkey_pem kp) msg sig = Inr True"
proof -
  from assms(3) obtain key where
    priv: "PEM_write_bio_PrivateKey E key = Some (privkey_pem kp)" "privkey_pem kp \<noteq> []" and
    pub: "PEM_write_bio_PUBKEY E key = Some (pubkey_pem kp)" "pubkey_pem kp \<noteq> []"
    by (rule generate_ec_keypairD)
  from assms(1) priv have bio: "BIO_new_mem_buf E (privkey_pem kp) (word_of_nat (length (privkey_pem kp))) = Some (privkey_pem kp)"
    and key: "PEM_read_bio_PrivateKey E (Some (privkey_pem kp)) = Some key"
    by (simp_all add: pem_round_trip_def)
  from sign_messageD [OF assms(4) bio key] obtain n s where
    ctx: "EVP_MD_CTX_new E" "EVP_DigestSignInit E (Some key)" "EVP_DigestSignUpdate E (Some key) msg" and n: "EVP_DigestSignLength E (Some key) msg = Some n" and
    s: "EVP_DigestSignFinal E (Some key) msg = Some s" and
    sig: "sig = take (length s) (copy_into (zero_array n) s)" .
  from assms(2) n s have "length s \<le> n" and ok: "EVP_DigestVerifyFinal E key msg s = 1"
    by (simp_all add: ecdsa_correct_def)
  then have "sig = s" by (simp add: sig take_copy_into_zero)
  moreover from assms(1) pub
  have "BIO_new_mem_buf E (pubkey_pem kp) (word_of_nat (length (pubkey_pem kp))) = Some (pubkey_pem kp)"
    and "PEM_read_bio_PUBKEY E (pubkey_pem kp) = Some key"
    by (simp_all add: pem_round_trip_def)
  ultimately show ?thesis
    using ctx ok assms(2) by (simp add: verify_message_def ecdsa_correct_def)
qed

lemma verify_message_bad_pem:
  assumes "\<And>bio. BIO_new_mem_buf E pem (word_of_nat (length pem)) = Some bio \<Longrightarrow> PEM_read_bio_PUBKEY E bio = None"
  shows "\<exists>e. verify_message E pem msg sig = Inl e"
  using assms by (auto simp: verify_message_def split: option.split)

end
