(* ===== verification/Astro_Sample.thy ===== *)
theory Astro_Sample
  imports Astro_Hash
begin

text \<open>
  A small executable stand-in for OpenSSL: a 32-byte checksum in place of SHA-256, two-byte keys and
  keyed checksums in place of ECDSA. It satisfies the documented behaviour the properties assume,
  and the concrete examples of the development evaluate over it. Nothing is proved from it otherwise.
\<close>

definition sample_checksum :: "bytes \<Rightarrow> u8" where
  "sample_checksum data = foldl (\<lambda>acc b. 3 * acc + b) 1 data"

definition sample_openssl :: openssl where
  "sample_openssl = \<lparr>
     EVP_MD_CTX_new = True,
     EVP_DigestInit_ex = (\<lambda>_. True),
     EVP_DigestUpdate = (\<lambda>_ _. True),
     EVP_DigestFinal_ex = (\<lambda>m data. case m of
         EVP_sha256 \<Rightarrow> Some (replicate 31 0 @ [sample_checksum data])
       | EVP_ripemd160 \<Rightarrow> Some (replicate 19 0 @ [sample_checksum data])),
     OPENSSL_init_crypto = True,
     ERR_error_string = ''error'',
     BIO_new = True,
     BIO_new_mem_buf = (\<lambda>bs n. if bs = [] then None else Some bs),
     PEM_write_bio_PrivateKey = (\<lambda>k. if k < 256 then Some (1 # replicate k 0) else None),
     PEM_write_bio_PUBKEY = (\<lambda>k. if k < 256 then Some (2 # replicate k 0) else None),
     PEM_read_bio_PrivateKey = (\<lambda>b. case b of Some (t # k) \<Rightarrow> if t = 1 then Some (length k) else None
                                           | _ \<Rightarrow> None),
     PEM_read_bio_PUBKEY = (\<lambda>b. case b of t # k \<Rightarrow> if t = 2 then Some (length k) else None
                                       | _ \<Rightarrow> None),
     EVP_PKEY_CTX_new_from_name = True,
     EVP_PKEY_keygen_init = True,
     EVP_PKEY_CTX_set_params = (\<lambda>c. c = ''secp256k1''),
     EVP_PKEY_keygen = (\<lambda>_. Some 3),
     EVP_DigestSignInit = (\<lambda>k. k \<noteq> None),
     EVP_DigestSignUpdate = (\<lambda>_ _. True),
     EVP_DigestSignLength = (\<lambda>_ _. Some 72),
     EVP_DigestSignFinal = (\<lambda>k msg. case k of None \<Rightarrow> None
                                   | Some k \<Rightarrow> Some [word_of_nat k, sample_checksum msg]),
     EVP_DigestVerifyInit = (\<lambda>_. True),
     EVP_DigestVerifyUpdate = (\<lambda>_ _. True),
     EVP_DigestVerifyFinal = (\<lambda>k msg sig. if sig = [word_of_nat k, sample_checksum msg] then 1 else 0)\<rparr>"

lemma sample_digest [simp]:
  "EVP_MD_CTX_new sample_openssl"
  "EVP_DigestInit_ex sample_openssl m"
  "EVP_DigestUpdate sample_openssl m data"
  by (simp_all add: sample_openssl_def)

lemma sample_sha256: "sha256 sample_openssl data = replicate 31 0 @ [sample_checksum data]"
  by (rule sha256_ok) (simp_all add: sample_openssl_def)

end
