(* ===== verification/Astro_Transaction.thy ===== *)
theory Astro_Transaction
  imports Astro_Serializer Astro_Keys Astro_Sample
begin

text \<open>
  include/astro/core/transaction.hpp and src/core/transaction.cpp: the transaction record, its two
  serializations (the full one, and the one that is signed and hashed), signing and verification.
\<close>

section \<open>Transactions\<close>

record Transaction =
  tx_version :: u16
  tx_nonce :: u64
  tx_amount :: u64
  from_pub_pem :: bytes
  to_label :: string
  tx_signature :: bytes

text \<open>A default-constructed \<open>Transaction\<close>.\<close>

definition new_Transaction :: Transaction where
  "new_Transaction = \<lparr>tx_version = 1, tx_nonce = 0, tx_amount = 0, from_pub_pem = [],
     to_label = [], tx_signature = []\<rparr>"

definition serialize_tx :: "bool \<Rightarrow> Transaction \<Rightarrow> bytes" where
  "serialize_tx for_signing tx =
     (let writer = new_writer;
          writer = write_u8 0xA1 writer;
          writer = write_u8 0x01 writer;
          writer = write_u32 1 writer;
          writer = write_u32 (ucast (tx_version tx)) writer;
          writer = write_u64 (tx_nonce tx) writer;
          writer = write_u64 (tx_amount tx) writer;
          writer = write_bytes (from_pub_pem tx) writer;
          writer = write_string (to_label tx) writer;
          writer = (if \<not> for_signing then write_bytes (tx_signature tx) writer
                    else write_u32 0 writer)
      in take_buffer writer)"

definition tx_hash :: "openssl \<Rightarrow> Transaction \<Rightarrow> Hash256" where
  "tx_hash E tx = sha256 E (serialize_tx True tx)"

definition sign :: "openssl \<Rightarrow> bytes \<Rightarrow> Transaction \<Rightarrow> exn + Transaction" where
  "sign E priv_bytes tx =
     (let message = serialize_tx True tx
      in bindE (sign_message E priv_bytes message) (\<lambda>sig. Inr (tx\<lparr>tx_signature := sig\<rparr>)))"

definition verify :: "openssl \<Rightarrow> Transaction \<Rightarrow> exn + bool" where
  "verify E tx =
     (let message = serialize_tx True tx
      in verify_message E (from_pub_pem tx) message (tx_signature tx))"

section \<open>The bytes of a transaction\<close>

text \<open>The size limits under which the 32-bit length prefixes are exact.\<close>

definition tx_fits :: "Transaction \<Rightarrow> bool" where
  "tx_fits tx \<longleftrightarrow> length (from_pub_pem tx) < 2 ^ 32 \<and> length (to_label tx) < 2 ^ 32 \<and>
     length (tx_signature tx) < 2 ^ 32"

definition tx_prefix :: "Transaction \<Rightarrow> bytes" where
  "tx_prefix tx = [0xA1, 0x01] @ le_bytes (1 :: u32) @ le_bytes (ucast (tx_version tx) :: u32) @
     le_bytes (tx_nonce tx) @ le_bytes (tx_amount tx) @ lp_bytes (from_pub_pem tx) @
     lp_bytes (string_bytes (to_label tx))"

lemma lp_bytes_Nil: "lp_bytes [] = le_bytes (0 :: u32)"
  by (simp add: lp_bytes_def u32_prefix_def)

lemma serialize_tx_eq:
  "serialize_tx for_signing tx =
     tx_prefix tx @ lp_bytes (if for_signing then [] else tx_signature tx)"
  by (auto simp: serialize_tx_def tx_prefix_def take_buffer_def Let_def lp_bytes_def u32_prefix_def)

lemma length_tx_prefix:
  "length (tx_prefix tx) = 34 + length (from_pub_pem tx) + length (to_label tx)"
  by (simp add: tx_prefix_def)

lemma length_serialize_tx:
  "length (serialize_tx for_signing tx) =
     38 + length (from_pub_pem tx) + length (to_label tx) +
       (if for_signing then 0 else length (tx_signature tx))"
  by (simp add: serialize_tx_eq length_tx_prefix)

lemma tx_prefix_signature [simp]: "tx_prefix (tx\<lparr>tx_signature := s\<rparr>) = tx_prefix tx"
  by (simp add: tx_prefix_def)

lemma serialize_tx_signing [simp]:
  "serialize_tx True (tx\<lparr>tx_signature := s\<rparr>) = serialize_tx True tx"
  by (simp add: serialize_tx_eq)

lemma tx_hash_signature [simp]: "tx_hash E (tx\<lparr>tx_signature := s\<rparr>) = tx_hash E tx"
  by (simp add: tx_hash_def)

text \<open>The signed bytes determine every field but the signature.\<close>

lemma signing_bytes_inject:
  assumes "serialize_tx True a = serialize_tx True b"
    and "length (from_pub_pem a) < 2 ^ 32" "length (from_pub_pem b) < 2 ^ 32"
    and "length (to_label a) < 2 ^ 32" "length (to_label b) < 2 ^ 32"
  shows "a\<lparr>tx_signature := []\<rparr> = b\<lparr>tx_signature := []\<rparr>"
proof -
  have v: "ucast (tx_version a) = (ucast (tx_version b) :: u32) \<Longrightarrow> tx_version a = tx_version b"
    by (metis ucast_u16_u32)
  from assms(1) have eq: "le_bytes (ucast (tx_version a) :: u32) @ le_bytes (tx_nonce a) @
      le_bytes (tx_amount a) @ lp_bytes (from_pub_pem a) @ lp_bytes (string_bytes (to_label a)) @ lp_bytes [] =
    le_bytes (ucast (tx_version b) :: u32) @ le_bytes (tx_nonce b) @
      le_bytes (tx_amount b) @ lp_bytes (from_pub_pem b) @ lp_bytes (string_bytes (to_label b)) @ lp_bytes []"
    by (simp add: serialize_tx_eq tx_prefix_def)
  from c_u32.prefix_free [OF _ _ eq] have 1: "tx_version a = tx_version b" and
    eq: "le_bytes (tx_nonce a) @ le_bytes (tx_amount a) @ lp_bytes (from_pub_pem a) @
        lp_bytes (string_bytes (to_label a)) @ lp_bytes [] =
      le_bytes (tx_nonce b) @ le_bytes (tx_amount b) @ lp_bytes (from_pub_pem b) @
        lp_bytes (string_bytes (to_label b)) @ lp_bytes []"
    using v by simp_all
  from c_u64.prefix_free [OF _ _ eq] have 2: "tx_nonce a = tx_nonce b" and
    eq: "le_bytes (tx_amount a) @ lp_bytes (from_pub_pem a) @ lp_bytes (string_bytes (to_label a)) @ lp_bytes [] =
      le_bytes (tx_amount b) @ lp_bytes (from_pub_pem b) @ lp_bytes (string_bytes (to_label b)) @ lp_bytes []"
    by simp_all
  from c_u64.prefix_free [OF _ _ eq] have 3: "tx_amount a = tx_amount b" and
    eq: "lp_bytes (from_pub_pem a) @ lp_bytes (string_bytes (to_label a)) @ lp_bytes [] =
      lp_bytes (from_pub_pem b) @ lp_bytes (string_bytes (to_label b)) @ lp_bytes []"
    by simp_all
  from c_bytes.prefix_free [OF assms(2,3) eq] have 4: "from_pub_pem a = from_pub_pem b" and
    eq: "lp_bytes (string_bytes (to_label a)) @ lp_bytes [] = lp_bytes (string_bytes (to_label b)) @ lp_bytes []"
    by simp_all
  from c_string.prefix_free [OF assms(4,5) eq] have 5: "to_label a = to_label b" by simp
  from 1 2 3 4 5 show ?thesis by (cases a; cases b) simp
qed

section \<open>Signing and verifying\<close>

lemma sign_fields:
  assumes "sign E priv tx = Inr tx'"
  shows "\<exists>sig. sign_message E priv (serialize_tx True tx) = Inr sig \<and> tx' = tx\<lparr>tx_signature := sig\<rparr>"
  using assms by (auto simp: sign_def Let_def bindE_eq_Inr)

lemma sign_verify:
  assumes "pem_round_trip E" and "ecdsa_correct E"
    and "generate_ec_keypair E curve = Inr kp"
    and "from_pub_pem tx = pubkey_pem kp"
    and "sign E (privkey_pem kp) tx = Inr tx'"
  shows "verify E tx' = Inr True"
proof -
  from sign_fields [OF assms(5)] obtain sig where
    sig: "sign_message E (privkey_pem kp) (serialize_tx True tx) = Inr sig" and
    tx': "tx' = tx\<lparr>tx_signature := sig\<rparr>" by blast
  from verify_message_sign_message [OF assms(1-3) sig] show ?thesis
    by (simp add: verify_def Let_def tx' assms(4))
qed

section \<open>Properties\<close>

text \<open>C29: a transaction signed with the private half of a generated key pair, naming the public half
  as its sender, verifies; signing changes nothing but the signature, so the transaction hash stays.\<close>

theorem signed_transaction_verifies:
  assumes "pem_round_trip E" and "ecdsa_correct E"
    and "generate_ec_keypair E curve = Inr kp"
    and "from_pub_pem tx = pubkey_pem kp"
    and "sign E (privkey_pem kp) tx = Inr tx'"
  shows "verify E tx' = Inr True \<and> (\<exists>sig. tx' = tx\<lparr>tx_signature := sig\<rparr>) \<and> tx_hash E tx' = tx_hash E tx"
  using sign_verify [OF assms] sign_fields [OF assms(5)] by auto

lemma sample_pem_round_trip: "pem_round_trip sample_openssl"
  by (simp add: pem_round_trip_def sample_openssl_def)

lemma sample_ecdsa_correct: "ecdsa_correct sample_openssl"
  by (simp add: ecdsa_correct_def sample_openssl_def)

lemma sample_keypair:
  "generate_ec_keypair sample_openssl default_curve =
     Inr \<lparr>privkey_pem = [1, 0, 0, 0], pubkey_pem = [2, 0, 0, 0]\<rparr>"
  by (simp add: generate_ec_keypair_def default_curve_def export_key_pem_def sample_openssl_def numeral_eq_Suc)

lemma sample_sign:
  "sign sample_openssl [1, 0, 0, 0] tx =
     Inr (tx\<lparr>tx_signature := [3, sample_checksum (serialize_tx True tx)]\<rparr>)"
  by (simp add: sign_def sign_message_def sample_openssl_def copy_into_def zero_array_def)

theorem signed_transaction_verifies_witness:
  "verify sample_openssl (new_Transaction\<lparr>from_pub_pem := [2, 0, 0, 0],
     tx_signature := [3, sample_checksum (serialize_tx True (new_Transaction\<lparr>from_pub_pem := [2, 0, 0, 0]\<rparr>))]\<rparr>) = Inr True"
  using signed_transaction_verifies [OF sample_pem_round_trip sample_ecdsa_correct sample_keypair,
      of "new_Transaction\<lparr>from_pub_pem := [2, 0, 0, 0]\<rparr>"]
  by (simp add: sample_sign)

text \<open>The signed bytes, and so what a signature covers and what \<open>tx_hash\<close> hashes, determine
  every field of a transaction but its signature, and do not depend on the signature.\<close>

theorem signed_bytes_determine_fields:
  assumes "tx_fits a" and "tx_fits b"
  shows "serialize_tx True a = serialize_tx True b \<longleftrightarrow> a\<lparr>tx_signature := []\<rparr> = b\<lparr>tx_signature := []\<rparr>"
proof
  assume "serialize_tx True a = serialize_tx True b"
  then show "a\<lparr>tx_signature := []\<rparr> = b\<lparr>tx_signature := []\<rparr>"
    by (rule signing_bytes_inject) (use assms in \<open>simp_all add: tx_fits_def\<close>)
next
  assume "a\<lparr>tx_signature := []\<rparr> = b\<lparr>tx_signature := []\<rparr>"
  then show "serialize_tx True a = serialize_tx True b" by (metis serialize_tx_signing)
qed

theorem signed_bytes_determine_fields_witness:
  "serialize_tx True (new_Transaction\<lparr>tx_amount := 5\<rparr>) \<noteq> serialize_tx True (new_Transaction\<lparr>to_label := ''a''\<rparr>)"
  by (subst signed_bytes_determine_fields) (simp_all add: tx_fits_def new_Transaction_def)

section \<open>The transaction of the front ends\<close>

text \<open>
  The programs under src/cli and src/main.cpp all make a transaction the same way: a fresh key pair,
  the fields, the signature.
\<close>

definition demo_transaction :: "openssl \<Rightarrow> u64 \<Rightarrow> u64 \<Rightarrow> string \<Rightarrow> exn + Transaction" where
  "demo_transaction E nonce amount label =
     bindE (generate_ec_keypair E default_curve) (\<lambda>key_pair.
       sign E (privkey_pem key_pair)
         (new_Transaction\<lparr>tx_version := 1, tx_nonce := nonce, tx_amount := amount,
            from_pub_pem := pubkey_pem key_pair, to_label := label\<rparr>))"

lemma demo_transaction_verifies:
  assumes "pem_round_trip E" and "ecdsa_correct E" and "demo_transaction E nonce amount label = Inr tx"
  shows "verify E tx = Inr True" and "from_pub_pem tx \<noteq> []"
proof -
  from assms(3) obtain kp where kp: "generate_ec_keypair E default_curve = Inr kp"
    and tx: "sign E (privkey_pem kp) (new_Transaction\<lparr>tx_version := 1, tx_nonce := nonce, tx_amount := amount,
      from_pub_pem := pubkey_pem kp, to_label := label\<rparr>) = Inr tx"
    by (auto simp: demo_transaction_def bindE_eq_Inr)
  show "verify E tx = Inr True" by (rule sign_verify [OF assms(1,2) kp _ tx]) simp
  have "pubkey_pem kp \<noteq> []" using kp by (rule generate_ec_keypairD)
  with sign_fields [OF tx] show "from_pub_pem tx \<noteq> []" by auto
qed

lemma demo_transaction_label:
  "demo_transaction E nonce amount label = Inr tx \<Longrightarrow> to_label tx = label \<and> tx_nonce tx = nonce \<and> tx_amount tx = amount"
  by (auto simp: demo_transaction_def bindE_eq_Inr dest!: sign_fields)

lemma sample_demo_transaction:
  "demo_transaction sample_openssl nonce amount label =
     Inr (let tx = new_Transaction\<lparr>tx_version := 1, tx_nonce := nonce, tx_amount := amount,
            from_pub_pem := [2, 0, 0, 0], to_label := label\<rparr>
          in tx\<lparr>tx_signature := [3, sample_checksum (serialize_tx True tx)]\<rparr>)"
  by (simp add: demo_transaction_def sample_keypair sample_sign Let_def)

end
