(* ===== verification/Astro_Merkle.thy ===== *)
theory Astro_Merkle
  imports Astro_Hash Astro_Sample
begin

text \<open>
  include/astro/core/merkle.hpp and src/core/merkle.cpp: the Merkle root of a list of leaf hashes,
  inclusion proofs and their verification. The level loops keep the index arithmetic of the code;
  \<open>assert\<close> failing is the value \<open>None\<close>.
\<close>

section \<open>Roots\<close>

definition hash_pair :: "openssl \<Rightarrow> bytes \<Rightarrow> bytes \<Rightarrow> Hash256" where
  "hash_pair E left right = hash_concat E left right"

definition empty_root :: "openssl \<Rightarrow> Hash256" where
  "empty_root E = sha256 E []"

text \<open>\<open>for (i = 0; i < level_hashes.size(); i += 2)\<close>: the hashes pushed from index \<open>i\<close> on.\<close>

function next_level_from :: "openssl \<Rightarrow> Hash256 list \<Rightarrow> nat \<Rightarrow> Hash256 list" where
  "next_level_from E level_hashes i =
     (if i < length level_hashes then
        let left = level_hashes ! i;
            right = (if i + 1 < length level_hashes then level_hashes ! (i + 1)
                     else level_hashes ! i)
        in hash_pair E left right # next_level_from E level_hashes (i + 2)
      else [])"
  by pat_completeness auto
termination
  by (relation "measure (\<lambda>(E, hs, i). length hs - i)") auto

declare next_level_from.simps [simp del]

definition next_level :: "openssl \<Rightarrow> Hash256 list \<Rightarrow> Hash256 list" where
  "next_level E level_hashes = next_level_from E level_hashes 0"

lemma length_next_level_from:
  "length (next_level_from E hs i) = (length hs - i + 1) div 2"
proof (induction E hs i rule: next_level_from.induct)
  case (1 E hs i)
  show ?case
  proof (cases "i < length hs")
    case True
    then have "(length hs - i + 1) div 2 = Suc ((length hs - (i + 2) + 1) div 2)" by arith
    with True "1.IH" [OF True refl refl] show ?thesis
      by (simp add: next_level_from.simps [of E hs i] Let_def)
  next
    case False
    then show ?thesis by (simp add: next_level_from.simps [of E hs i])
  qed
qed

lemma length_next_level [simp]: "length (next_level E hs) = (length hs + 1) div 2"
  by (simp add: next_level_def length_next_level_from)

function root_loop :: "openssl \<Rightarrow> Hash256 list \<Rightarrow> Hash256" where
  "root_loop E level_hashes =
     (if 1 < length level_hashes then root_loop E (next_level E level_hashes)
      else hd level_hashes)"
  by pat_completeness auto
termination
  by (relation "measure (\<lambda>(E, hs). length hs)") auto

declare root_loop.simps [simp del]

definition root :: "openssl \<Rightarrow> Hash256 list \<Rightarrow> Hash256" where
  "root E leaves =
     (if leaves = [] then empty_root E
      else if length leaves = 1 then (let only = hd leaves in hash_pair E only only)
      else root_loop E leaves)"

section \<open>Proofs\<close>

record ProofStep =
  sibling :: Hash256
  sibling_on_left :: bool

record MerkleProof =
  steps :: "ProofStep list"

function build_proof_loop :: "openssl \<Rightarrow> Hash256 list \<Rightarrow> nat \<Rightarrow> ProofStep list \<Rightarrow> ProofStep list" where
  "build_proof_loop E level_hashes proof_index acc =
     (if 1 < length level_hashes then
        let last_index = length level_hashes - 1;
            sibling_index =
              (if proof_index mod 2 = 0
               then (if proof_index + 1 \<le> last_index then proof_index + 1 else proof_index)
               else proof_index - 1);
            on_left = (proof_index mod 2 = 1)
        in build_proof_loop E (next_level E level_hashes) (proof_index div 2)
             (acc @ [\<lparr>sibling = level_hashes ! sibling_index, sibling_on_left = on_left\<rparr>])
      else acc)"
  by pat_completeness auto
termination
  by (relation "measure (\<lambda>(E, hs, i, acc). length hs)") auto

declare build_proof_loop.simps [simp del]

definition build_proof :: "openssl \<Rightarrow> Hash256 list \<Rightarrow> nat \<Rightarrow> MerkleProof option" where
  "build_proof E leaves index =
     (if leaves = [] then Some \<lparr>steps = []\<rparr>
      else if \<not> index < length leaves then None
      else Some \<lparr>steps = build_proof_loop E leaves index []\<rparr>)"

definition proof_step :: "openssl \<Rightarrow> Hash256 \<Rightarrow> ProofStep \<Rightarrow> Hash256" where
  "proof_step E current_hash step =
     (if sibling_on_left step then hash_pair E (sibling step) current_hash
      else hash_pair E current_hash (sibling step))"

definition verify_proof :: "openssl \<Rightarrow> bytes \<Rightarrow> MerkleProof \<Rightarrow> Hash256 \<Rightarrow> bool" where
  "verify_proof E leaf_hash proof expected_root =
     (let current_hash = (if length leaf_hash = 32 then leaf_hash else sha256 E leaf_hash)
      in if steps proof = [] then hash_pair E current_hash current_hash = expected_root
         else foldl (proof_step E) current_hash (steps proof) = expected_root)"

section \<open>Levels\<close>

lemma length_hash_pair [simp, size_simps]: "length (hash_pair E a b) = 32"
  by (simp add: hash_pair_def hash_concat_def)

text \<open>The right neighbour of position \<open>2 * k\<close>, which is the position itself at an odd end.\<close>

definition right_index :: "nat \<Rightarrow> nat \<Rightarrow> nat" where
  "right_index n k = (if 2 * k + 1 < n then 2 * k + 1 else 2 * k)"

lemma next_level_from_nth:
  "k < length (next_level_from E hs i) \<Longrightarrow>
     next_level_from E hs i ! k =
       hash_pair E (hs ! (i + 2 * k))
         (if i + 2 * k + 1 < length hs then hs ! (i + 2 * k + 1) else hs ! (i + 2 * k))"
proof (induction E hs i arbitrary: k rule: next_level_from.induct)
  case (1 E hs i)
  from "1.prems" have i: "i < length hs"
    by (cases "i < length hs") (auto simp: next_level_from.simps [of E hs i])
  show ?case
  proof (cases k)
    case 0
    with i show ?thesis by (simp add: next_level_from.simps [of E hs i] Let_def)
  next
    case (Suc j)
    have "j < length (next_level_from E hs (i + 2))"
      using "1.prems" i Suc by (simp add: next_level_from.simps [of E hs i] Let_def)
    from "1.IH" [OF i refl refl this] i Suc show ?thesis
      by (simp add: next_level_from.simps [of E hs i] Let_def)
  qed
qed

lemma next_level_nth:
  assumes "k < (length hs + 1) div 2"
  shows "next_level E hs ! k = hash_pair E (hs ! (2 * k)) (hs ! right_index (length hs) k)"
  using next_level_from_nth [of k E hs 0] assms
  by (simp add: next_level_def [symmetric] right_index_def)

lemma next_level_eq_map:
  "next_level E hs =
     map (\<lambda>k. hash_pair E (hs ! (2 * k)) (hs ! right_index (length hs) k)) [0..<(length hs + 1) div 2]"
  by (rule nth_equalityI) (simp_all add: next_level_nth)

lemma next_level_width: "h \<in> set (next_level E hs) \<Longrightarrow> length h = 32"
  by (auto simp: next_level_eq_map)

lemma root_loop_simps:
  "1 < length hs \<Longrightarrow> root_loop E hs = root_loop E (next_level E hs)"
  "length hs \<le> 1 \<Longrightarrow> root_loop E hs = hd hs"
  by (simp_all add: root_loop.simps [of E hs])

lemma next_level_single: "next_level E [a] = [hash_pair E a a]"
  by (simp add: next_level_eq_map right_index_def)

lemma next_level_Nil_iff [simp]: "next_level E hs = [] \<longleftrightarrow> hs = []"
proof -
  have "(length hs + 1) div 2 = 0 \<longleftrightarrow> length hs = 0" by linarith
  then show ?thesis by (metis length_next_level length_0_conv)
qed

text \<open>The one-leaf case of the code is the general loop started with one extra level.\<close>

lemma root_eq_root_loop: "leaves \<noteq> [] \<Longrightarrow> root E leaves = root_loop E (next_level E leaves)"
proof (cases "length leaves = 1")
  case True
  then obtain a where "leaves = [a]" by (auto simp: length_Suc_conv)
  then show ?thesis by (simp add: root_def Let_def root_loop_simps next_level_single)
next
  case False
  assume "leaves \<noteq> []"
  with False have "1 < length leaves" by (cases leaves) auto
  then show ?thesis by (auto simp: root_def root_loop_simps)
qed

definition hashes :: "Hash256 list \<Rightarrow> bool" where
  "hashes hs \<longleftrightarrow> (\<forall>h \<in> set hs. length h = 32)"

lemma hashes_next_level [simp]: "hashes (next_level E hs)"
  by (simp add: hashes_def next_level_width)

lemma hashes_nth: "hashes hs \<Longrightarrow> i < length hs \<Longrightarrow> length (hs ! i) = 32"
  by (simp add: hashes_def)

lemma length_root_loop: "hs \<noteq> [] \<Longrightarrow> hashes hs \<Longrightarrow> length (root_loop E hs) = 32"
proof (induction E hs rule: root_loop.induct)
  case (1 E hs)
  show ?case
  proof (cases "1 < length hs")
    case True
    from "1.IH" [OF True] "1.prems" have "length (root_loop E (next_level E hs)) = 32" by simp
    with True show ?thesis by (simp only: root_loop_simps)
  next
    case False
    with "1.prems" show ?thesis by (simp add: root_loop_simps hashes_def)
  qed
qed

lemma length_root [simp, size_simps]: "length (root E leaves) = 32"
proof (cases "leaves = []")
  case True
  then show ?thesis by (simp add: root_def empty_root_def)
next
  case False
  then show ?thesis by (simp add: root_eq_root_loop length_root_loop)
qed

section \<open>Authentication paths\<close>

text \<open>The loop of \<open>build_proof\<close> without its accumulator.\<close>

definition level_step :: "Hash256 list \<Rightarrow> nat \<Rightarrow> ProofStep" where
  "level_step hs i =
     \<lparr>sibling = hs ! (if i mod 2 = 0 then (if i + 1 \<le> length hs - 1 then i + 1 else i) else i - 1),
      sibling_on_left = (i mod 2 = 1)\<rparr>"

function path :: "openssl \<Rightarrow> Hash256 list \<Rightarrow> nat \<Rightarrow> ProofStep list" where
  "path E hs i = (if 1 < length hs then level_step hs i # path E (next_level E hs) (i div 2) else [])"
  by pat_completeness auto
termination
  by (relation "measure (\<lambda>(E, hs, i). length hs)") auto

declare path.simps [simp del]

lemma path_simps:
  "1 < length hs \<Longrightarrow> path E hs i = level_step hs i # path E (next_level E hs) (i div 2)"
  "length hs \<le> 1 \<Longrightarrow> path E hs i = []"
  by (simp_all add: path.simps [of E hs])

lemma build_proof_loop_step:
  "build_proof_loop E hs i acc =
     (if 1 < length hs then build_proof_loop E (next_level E hs) (i div 2) (acc @ [level_step hs i])
      else acc)"
  by (subst build_proof_loop.simps) (simp only: level_step_def Let_def)

lemma build_proof_loop_path: "build_proof_loop E hs i acc = acc @ path E hs i"
proof (induction E hs i arbitrary: acc rule: path.induct)
  case (1 E hs i)
  then show ?case
    by (cases "1 < length hs") (simp_all add: build_proof_loop_step [of E hs] path_simps)
qed

text \<open>One step of the verifier moves from a level's entry to its parent.\<close>

lemma proof_step_level:
  assumes "i < length hs" and "1 < length hs"
  shows "proof_step E (hs ! i) (level_step hs i) = next_level E hs ! (i div 2)"
proof -
  have parent: "next_level E hs ! (i div 2) =
      hash_pair E (hs ! (2 * (i div 2))) (hs ! right_index (length hs) (i div 2))"
    using assms by (intro next_level_nth) linarith
  show ?thesis
  proof (cases "i mod 2 = 0")
    case True
    then have "2 * (i div 2) = i" by presburger
    with True assms show ?thesis
      by (auto simp: parent proof_step_def level_step_def right_index_def)
  next
    case False
    then have "2 * (i div 2) = i - 1" "2 * (i div 2) + 1 = i" by presburger+
    with False assms show ?thesis
      by (simp add: parent proof_step_def level_step_def right_index_def)
  qed
qed

lemma path_leads_to_root:
  assumes "i < length hs"
  shows "foldl (proof_step E) (hs ! i) (path E hs i) = root_loop E hs"
  using assms
proof (induction E hs i rule: path.induct)
  case (1 E hs i)
  show ?case
  proof (cases "1 < length hs")
    case True
    have "i div 2 < length (next_level E hs)"
      using "1.prems" unfolding length_next_level by linarith
    from "1.IH" [OF True this] True "1.prems" show ?thesis
      by (simp add: path_simps root_loop_simps proof_step_level)
  next
    case False
    with "1.prems" have "length hs = 1" "i = 0" by auto
    then show ?thesis by (simp add: path_simps root_loop_simps hd_conv_nth flip: length_0_conv)
  qed
qed

text \<open>The number of steps is the height of the tree: the binary logarithm, rounded up.\<close>

lemma path_length_bounds:
  "hs \<noteq> [] \<Longrightarrow> length hs \<le> 2 ^ length (path E hs i) \<and> 2 ^ length (path E hs i) < 2 * length hs"
proof (induction E hs i rule: path.induct)
  case (1 E hs i)
  show ?case
  proof (cases "1 < length hs")
    case True
    let ?p = "length (path E (next_level E hs) (i div 2))"
    from "1.IH" [OF True] True "1.prems"
    have "(length hs + 1) div 2 \<le> 2 ^ ?p \<and> 2 ^ ?p < 2 * ((length hs + 1) div 2)" by simp
    moreover have "even (length hs)" if "2 ^ ?p = length hs"
      using that True by (cases ?p) (auto simp flip: that)
    ultimately have "length hs \<le> 2 * 2 ^ ?p \<and> 2 ^ ?p < length hs"
      by (cases "even (length hs)") (auto elim!: evenE oddE simp: less_Suc_eq)
    then show ?thesis using True by (simp add: path_simps)
  next
    case False
    with "1.prems" have "length hs = 1" by (cases hs) auto
    then show ?thesis by (simp add: path_simps)
  qed
qed

section \<open>Binding\<close>

text \<open>
  What a party would have to exhibit to cheat: two different inputs of SHA-256, both taken from the
  two computations at hand, with the same digest. The inputs are computed, so the statements below
  are not satisfied by the mere existence of collisions.
\<close>

fun path_inputs :: "openssl \<Rightarrow> Hash256 \<Rightarrow> ProofStep list \<Rightarrow> bytes list" where
  "path_inputs E cur [] = []"
| "path_inputs E cur (s # ss) =
     (if sibling_on_left s then sibling s @ cur else cur @ sibling s)
       # path_inputs E (proof_step E cur s) ss"

definition clash :: "openssl \<Rightarrow> bytes list \<Rightarrow> bytes list \<Rightarrow> bool" where
  "clash E xs ys \<longleftrightarrow> (\<exists>(x, y) \<in> set (zip xs ys). collision (sha256 E) x y)"

lemma clash_Cons: "clash E (x # xs) (y # ys) \<longleftrightarrow> collision (sha256 E) x y \<or> clash E xs ys"
  by (auto simp: clash_def)

lemma clash_append:
  "length xs = length ys \<Longrightarrow> clash E (xs @ xs') (ys @ ys') \<longleftrightarrow> clash E xs ys \<or> clash E xs' ys'"
  by (auto simp: clash_def)

lemma clash_map_sha:
  "length xs = length ys \<Longrightarrow> map (sha256 E) xs = map (sha256 E) ys \<Longrightarrow> xs \<noteq> ys \<Longrightarrow> clash E xs ys"
proof (induction xs ys rule: list_induct2)
  case Nil
  then show ?case by simp
next
  case (Cons x xs y ys)
  then show ?case by (cases "x = y") (auto simp: clash_Cons collision_def)
qed

lemma proof_step_sha:
  "proof_step E cur s = sha256 E (if sibling_on_left s then sibling s @ cur else cur @ sibling s)"
  by (simp add: proof_step_def hash_pair_def hash_concat_def)

lemma path_binding:
  assumes "length ss = length ts"
    and "map sibling_on_left ss = map sibling_on_left ts"
    and "hashes (map sibling ss)" and "hashes (map sibling ts)"
    and "length a = 32" and "length b = 32"
    and "foldl (proof_step E) a ss = foldl (proof_step E) b ts"
    and "a \<noteq> b \<or> map sibling ss \<noteq> map sibling ts"
  shows "clash E (path_inputs E a ss) (path_inputs E b ts)"
  using assms
proof (induction ss ts arbitrary: a b rule: list_induct2)
  case Nil
  then show ?case by simp
next
  case (Cons s ss t ts)
  let ?a = "proof_step E a s" and ?b = "proof_step E b t"
  have w: "length (sibling s) = 32" "length (sibling t) = 32"
    using Cons.prems by (simp_all add: hashes_def)
  show ?case
  proof (cases "?a \<noteq> ?b \<or> map sibling ss \<noteq> map sibling ts")
    case True
    have "clash E (path_inputs E ?a ss) (path_inputs E ?b ts)"
      by (rule Cons.IH) (use Cons.prems True in \<open>simp_all add: hashes_def proof_step_sha\<close>)
    then show ?thesis by (simp add: clash_Cons)
  next
    case False
    with Cons.prems have "a \<noteq> b \<or> sibling s \<noteq> sibling t" by auto
    with False Cons.prems w show ?thesis
      by (auto simp: clash_Cons collision_def proof_step_sha)
  qed
qed

definition level_inputs :: "Hash256 list \<Rightarrow> bytes list" where
  "level_inputs hs = map (\<lambda>k. hs ! (2 * k) @ hs ! right_index (length hs) k) [0..<(length hs + 1) div 2]"

lemma next_level_sha: "next_level E hs = map (sha256 E) (level_inputs hs)"
  by (simp add: next_level_eq_map level_inputs_def hash_pair_def hash_concat_def)

lemma length_level_inputs [simp]: "length (level_inputs hs) = (length hs + 1) div 2"
  by (simp add: level_inputs_def)

lemma level_inputs_inject:
  assumes "level_inputs xs = level_inputs ys" and len: "length xs = length ys"
    and "hashes xs" and "hashes ys"
  shows "xs = ys"
proof (rule nth_equalityI [OF len])
  fix i
  assume i: "i < length xs"
  let ?k = "i div 2"
  have k: "?k < (length xs + 1) div 2" using i by linarith
  have idx: "2 * ?k < length xs" "right_index (length xs) ?k < length xs"
    using i by (auto simp: right_index_def)
  have "level_inputs xs ! ?k = level_inputs ys ! ?k" by (simp add: assms(1))
  then have "xs ! (2 * ?k) @ xs ! right_index (length xs) ?k =
      ys ! (2 * ?k) @ ys ! right_index (length xs) ?k"
    using k len by (simp add: level_inputs_def)
  then have "xs ! (2 * ?k) = ys ! (2 * ?k)"
    and "xs ! right_index (length xs) ?k = ys ! right_index (length xs) ?k"
    using idx len assms(3,4) by (simp_all add: hashes_nth)
  moreover have "i = 2 * ?k \<or> i = right_index (length xs) ?k"
    using i by (auto simp: right_index_def)
  ultimately show "xs ! i = ys ! i" by metis
qed

function tree_inputs :: "openssl \<Rightarrow> Hash256 list \<Rightarrow> bytes list" where
  "tree_inputs E hs = (if 1 < length hs then level_inputs hs @ tree_inputs E (next_level E hs) else [])"
  by pat_completeness auto
termination
  by (relation "measure (\<lambda>(E, hs). length hs)") auto

declare tree_inputs.simps [simp del]

definition root_inputs :: "openssl \<Rightarrow> Hash256 list \<Rightarrow> bytes list" where
  "root_inputs E leaves = level_inputs leaves @ tree_inputs E (next_level E leaves)"

lemma root_loop_binding:
  assumes "root_loop E xs = root_loop E ys" and "length xs = length ys" and "xs \<noteq> []"
    and "hashes xs" and "hashes ys" and "xs \<noteq> ys"
  shows "clash E (tree_inputs E xs) (tree_inputs E ys)"
  using assms
proof (induction E xs arbitrary: ys rule: root_loop.induct)
  case (1 E xs)
  show ?case
  proof (cases "1 < length xs")
    case True
    have inputs: "tree_inputs E zs = level_inputs zs @ tree_inputs E (next_level E zs)"
      if "length zs = length xs" for zs
      using True that by (simp add: tree_inputs.simps [of E zs])
    have "level_inputs xs \<noteq> level_inputs ys"
      using level_inputs_inject "1.prems" by blast
    then have "clash E (level_inputs xs) (level_inputs ys)" if "next_level E xs = next_level E ys"
      using that "1.prems"(2) by (intro clash_map_sha) (simp_all add: next_level_sha)
    moreover have "clash E (tree_inputs E (next_level E xs)) (tree_inputs E (next_level E ys))"
      if "next_level E xs \<noteq> next_level E ys"
      by (rule "1.IH" [OF True]) (use that "1.prems" True in \<open>simp_all add: root_loop_simps(1)\<close>)
    ultimately show ?thesis
      using "1.prems"(2) by (auto simp: inputs clash_append)
  next
    case False
    with "1.prems" obtain x y where "xs = [x]" "ys = [y]"
      by (cases xs; cases ys) (auto simp: Suc_le_eq)
    with "1.prems" show ?thesis by (simp add: root_loop_simps)
  qed
qed

lemma root_binding_aux:
  assumes "root E xs = root E ys" and "length xs = length ys"
    and "hashes xs" and "hashes ys" and "xs \<noteq> ys"
  shows "clash E (root_inputs E xs) (root_inputs E ys)"
proof -
  from assms(2,5) have ne: "xs \<noteq> []" "ys \<noteq> []" by auto
  have "level_inputs xs \<noteq> level_inputs ys"
    using level_inputs_inject assms by blast
  then have "clash E (level_inputs xs) (level_inputs ys)" if "next_level E xs = next_level E ys"
    using that assms(2) by (intro clash_map_sha) (simp_all add: next_level_sha)
  moreover have "clash E (tree_inputs E (next_level E xs)) (tree_inputs E (next_level E ys))"
    if "next_level E xs \<noteq> next_level E ys"
    by (rule root_loop_binding) (use that ne assms in \<open>simp_all add: root_eq_root_loop\<close>)
  ultimately show ?thesis using assms(2) by (auto simp: root_inputs_def clash_append)
qed

lemma next_level_duplicate_last:
  assumes "even (length xs)"
  shows "next_level E (xs @ [x, x]) = next_level E (xs @ [x])"
proof -
  from assms obtain m where m: "length xs = 2 * m" by (auto elim: evenE)
  have "length (xs @ [x, x]) = length (xs @ [x]) + 1" by simp
  show ?thesis
    by (rule nth_equalityI)
      (auto simp: next_level_nth m right_index_def nth_append less_Suc_eq)
qed

lemma root_duplicate_last_aux:
  assumes "even (length xs)"
  shows "root E (xs @ [x, x]) = root E (xs @ [x])"
  by (simp add: root_eq_root_loop next_level_duplicate_last assms)

text \<open>All inputs hashed by \<open>verify_proof\<close> on a 32-byte leaf.\<close>

definition verify_inputs :: "openssl \<Rightarrow> Hash256 \<Rightarrow> MerkleProof \<Rightarrow> bytes list" where
  "verify_inputs E leaf proof =
     (if steps proof = [] then [leaf @ leaf] else path_inputs E leaf (steps proof))"

text \<open>Two proofs for the same position: as many steps, siblings on the same sides.\<close>

definition same_position :: "MerkleProof \<Rightarrow> MerkleProof \<Rightarrow> bool" where
  "same_position p q \<longleftrightarrow> map sibling_on_left (steps p) = map sibling_on_left (steps q)"

lemma build_proof_path:
  "i < length leaves \<Longrightarrow> build_proof E leaves i = Some \<lparr>steps = path E leaves i\<rparr>"
  by (auto simp: build_proof_def build_proof_loop_path)

lemma hashes_path: "hashes hs \<Longrightarrow> i < length hs \<Longrightarrow> hashes (map sibling (path E hs i))"
proof (induction E hs i rule: path.induct)
  case (1 E hs i)
  show ?case
  proof (cases "1 < length hs")
    case True
    have "i div 2 < length (next_level E hs)"
      using "1.prems" unfolding length_next_level by linarith
    from "1.IH" [OF True _ this] have "hashes (map sibling (path E (next_level E hs) (i div 2)))" by simp
    moreover have "length (sibling (level_step hs i)) = 32"
      using "1.prems" True by (simp add: level_step_def hashes_nth)
    ultimately show ?thesis using True by (simp add: path_simps hashes_def)
  next
    case False
    then show ?thesis by (simp add: path_simps hashes_def)
  qed
qed

lemma path_Nil_iff: "path E hs i = [] \<longleftrightarrow> length hs \<le> 1"
  by (cases "1 < length hs") (simp_all add: path_simps)

lemma honest_proof_verifies:
  assumes "index < length leaves" and "hashes leaves"
  shows "verify_proof E (leaves ! index) \<lparr>steps = path E leaves index\<rparr> (root E leaves)"
proof -
  have w: "length (leaves ! index) = 32" using assms by (simp add: hashes_nth)
  show ?thesis
  proof (cases "length leaves = 1")
    case True
    with assms obtain a where "leaves = [a]" "index = 0" by (auto simp: length_Suc_conv)
    with w show ?thesis by (simp add: verify_proof_def path_simps root_def)
  next
    case False
    with assms have "1 < length leaves" by linarith
    with w path_leads_to_root [OF assms(1), of E] show ?thesis
      by (auto simp: verify_proof_def path_Nil_iff root_def)
  qed
qed

lemma verify_proofs_clash:
  assumes "same_position p q" and "hashes (map sibling (steps p))" and "hashes (map sibling (steps q))"
    and "length a = 32" and "length b = 32" and "a \<noteq> b"
    and "verify_proof E a p r" and "verify_proof E b q r"
  shows "clash E (verify_inputs E a p) (verify_inputs E b q)"
proof -
  have len: "length (steps p) = length (steps q)"
    using assms(1) by (metis same_position_def length_map)
  show ?thesis
  proof (cases "steps p = []")
    case True
    with len assms show ?thesis
      by (auto simp: verify_inputs_def verify_proof_def clash_Cons collision_def hash_pair_def hash_concat_def)
  next
    case False
    with len have "steps q \<noteq> []" by auto
    with False assms path_binding [OF len _ assms(2-5)] show ?thesis
      by (simp add: verify_inputs_def verify_proof_def same_position_def)
  qed
qed

section \<open>Properties\<close>

text \<open>C5: for every leaf of a non-empty tree, \<open>build_proof\<close> succeeds and \<open>verify_proof\<close> accepts the
  proof for that leaf against the root that \<open>root\<close> computes, the single-leaf tree included.\<close>

theorem merkle_proof_verifies:
  assumes "index < length leaves" and "hashes leaves"
  shows "\<exists>proof. build_proof E leaves index = Some proof \<and>
           verify_proof E (leaves ! index) proof (root E leaves)"
  using build_proof_path [OF assms(1)] honest_proof_verifies [OF assms] by blast

abbreviation sample_leaves :: "Hash256 list" where
  "sample_leaves \<equiv> [replicate 32 1, replicate 32 2, replicate 32 3]"

lemma sample_leaves_hashes: "hashes sample_leaves"
  by (simp add: hashes_def)

theorem merkle_proof_verifies_witness:
  "\<exists>proof. build_proof sample_openssl sample_leaves 2 = Some proof \<and>
     verify_proof sample_openssl (replicate 32 3) proof (root sample_openssl sample_leaves)"
  using merkle_proof_verifies [of 2 sample_leaves sample_openssl] sample_leaves_hashes by simp

text \<open>C6: if \<open>verify_proof\<close> accepts, against the root of \<open>leaves\<close>, a leaf other than the one at
  \<open>index\<close>, with a proof for that position, then the inputs hashed by the verifier and the inputs
  hashed along the honest proof contain a collision of SHA-256 at the same place.\<close>

theorem merkle_proof_sound:
  assumes "build_proof E leaves index = Some honest" and "index < length leaves" and "hashes leaves"
    and "same_position proof honest" and "hashes (map sibling (steps proof))" and "length leaf = 32"
    and "verify_proof E leaf proof (root E leaves)" and "leaf \<noteq> leaves ! index"
  shows "clash E (verify_inputs E leaf proof) (verify_inputs E (leaves ! index) honest)"
proof -
  have honest: "honest = \<lparr>steps = path E leaves index\<rparr>"
    using assms(1) build_proof_path [OF assms(2), of E] by simp
  show ?thesis
    using verify_proofs_clash [OF assms(4,5) _ assms(6) _ assms(8,7)]
      honest_proof_verifies [OF assms(2,3)] hashes_path [OF assms(3,2)] hashes_nth [OF assms(3,2)]
    by (simp add: honest)
qed

text \<open>Two leaves whose one-leaf trees have the same root under the sample checksum.\<close>

abbreviation sample_leaf_a :: Hash256 where
  "sample_leaf_a \<equiv> replicate 32 0"

abbreviation sample_leaf_b :: Hash256 where
  "sample_leaf_b \<equiv> [1, 253] @ replicate 30 0"

lemma sample_leaf_neq: "sample_leaf_b \<noteq> sample_leaf_a"
  by code_simp

lemma sample_leaves_collide:
  "hash_pair sample_openssl sample_leaf_b sample_leaf_b = hash_pair sample_openssl sample_leaf_a sample_leaf_a"
proof -
  have "sample_checksum (sample_leaf_b @ sample_leaf_b) = sample_checksum (sample_leaf_a @ sample_leaf_a)"
    by code_simp
  then show ?thesis by (simp only: hash_pair_def hash_concat_def sample_sha256)
qed

theorem merkle_proof_sound_witness:
  "clash sample_openssl (verify_inputs sample_openssl sample_leaf_b \<lparr>steps = []\<rparr>)
     (verify_inputs sample_openssl sample_leaf_a \<lparr>steps = []\<rparr>)"
  using merkle_proof_sound [of sample_openssl "[sample_leaf_a]" 0 "\<lparr>steps = []\<rparr>" "\<lparr>steps = []\<rparr>" sample_leaf_b]
    sample_leaves_collide sample_leaf_neq
  by (simp add: build_proof_path path_simps hashes_def same_position_def verify_proof_def root_def Let_def)

text \<open>C20: two leaf lists of the same length with the same root are equal, or the inputs hashed for
  the two roots contain a collision of SHA-256 at the same place of the two trees.\<close>

theorem merkle_root_binding:
  assumes "root E xs = root E ys" and "length xs = length ys" and "hashes xs" and "hashes ys"
  shows "xs = ys \<or> clash E (root_inputs E xs) (root_inputs E ys)"
  using root_binding_aux [OF assms] by blast

theorem merkle_root_binding_witness:
  "root sample_openssl [sample_leaf_a] = root sample_openssl [sample_leaf_b] \<and>
   ([sample_leaf_a] = [sample_leaf_b] \<or>
    clash sample_openssl (root_inputs sample_openssl [sample_leaf_a]) (root_inputs sample_openssl [sample_leaf_b]))"
proof -
  have "root sample_openssl [sample_leaf_a] = root sample_openssl [sample_leaf_b]"
    using sample_leaves_collide by (simp add: root_def Let_def)
  then show ?thesis
    using merkle_root_binding [of sample_openssl "[sample_leaf_a]" "[sample_leaf_b]"]
    by (simp add: hashes_def)
qed

text \<open>An inclusion proof has as many steps as the tree has levels above the leaves: the
  binary logarithm of the number of leaves, rounded up.\<close>

theorem merkle_proof_length:
  assumes "index < length leaves" and "build_proof E leaves index = Some proof"
  shows "length leaves \<le> 2 ^ length (steps proof) \<and> 2 ^ length (steps proof) < 2 * length leaves"
proof -
  from assms have "leaves \<noteq> []" and "steps proof = path E leaves index"
    by (auto simp: build_proof_path)
  with path_length_bounds show ?thesis by metis
qed

theorem merkle_proof_length_witness:
  "\<exists>proof. build_proof sample_openssl sample_leaves 1 = Some proof \<and>
     3 \<le> (2::nat) ^ length (steps proof) \<and> (2::nat) ^ length (steps proof) < 6"
  using merkle_proof_length [of 1 sample_leaves sample_openssl]
  by (simp add: build_proof_path)

text \<open>\<open>build_proof\<close> fails its assertion exactly when the index is out of range of a non-empty
  tree; on an empty tree it returns a proof without steps whatever the index.\<close>

theorem build_proof_assertion:
  "build_proof E leaves index = None \<longleftrightarrow> leaves \<noteq> [] \<and> length leaves \<le> index"
  by (auto simp: build_proof_def)

text \<open>The root does not determine the number of leaves: repeating the last leaf of a list of odd
  length leaves the root unchanged.\<close>

theorem merkle_root_duplicate_last:
  assumes "even (length xs)"
  shows "root E (xs @ [x, x]) = root E (xs @ [x])"
  by (rule root_duplicate_last_aux [OF assms])

theorem merkle_root_duplicate_last_witness:
  "root sample_openssl ([sample_leaf_a, sample_leaf_b] @ [replicate 32 7, replicate 32 7]) =
   root sample_openssl ([sample_leaf_a, sample_leaf_b] @ [replicate 32 7])"
  using merkle_root_duplicate_last [of "[sample_leaf_a, sample_leaf_b]"] by simp

end
