(* ===== verification/Astro_Block.thy ===== *)
theory Astro_Block
  imports Astro_Transaction Astro_Merkle
begin

text \<open>
  include/astro/core/block.hpp and src/core/block.cpp: block headers and blocks, their
  serializations, the Merkle root of a block's transactions, the genesis block and the basic sanity
  check.
\<close>

section \<open>Headers and blocks\<close>

record BlockHeader =
  hdr_version :: u32
  prev_hash :: Hash256
  merkle_root :: Hash256
  hdr_timestamp :: u64
  hdr_nonce :: u64

definition new_BlockHeader :: BlockHeader where
  "new_BlockHeader = \<lparr>hdr_version = 1, prev_hash = zero_array 32, merkle_root = zero_array 32,
     hdr_timestamp = 0, hdr_nonce = 0\<rparr>"

definition serialize_header :: "BlockHeader \<Rightarrow> bytes" where
  "serialize_header h =
     (let writer = new_writer;
          writer = write_u32 (hdr_version h) writer;
          writer = write_raw (prev_hash h) writer;
          writer = write_raw (merkle_root h) writer;
          writer = write_u64 (hdr_timestamp h) writer;
          writer = write_u64 (hdr_nonce h) writer
      in take_buffer writer)"

definition hash_header :: "openssl \<Rightarrow> BlockHeader \<Rightarrow> Hash256" where
  "hash_header E h = (let header_bytes = serialize_header h in sha256 E header_bytes)"

record Block =
  header :: BlockHeader
  transactions :: "Transaction list"

definition serialize_block :: "Block \<Rightarrow> bytes" where
  "serialize_block block =
     (let writer = new_writer;
          writer = write_raw (serialize_header (header block)) writer;
          writer = write_u32 (word_of_nat (length (transactions block))) writer;
          writer = foldl (\<lambda>writer tx.
                      let tx_bytes = serialize_tx False tx;
                          writer = write_u32 (word_of_nat (length tx_bytes)) writer
                      in write_raw tx_bytes writer)
                    writer (transactions block)
      in take_buffer writer)"

definition empty_merkle_root :: "openssl \<Rightarrow> Hash256" where
  "empty_merkle_root E = sha256 E []"

definition compute_merkle_root :: "openssl \<Rightarrow> Transaction list \<Rightarrow> Hash256" where
  "compute_merkle_root E txs = root E (map (tx_hash E) txs)"

definition make_genesis_block :: "openssl \<Rightarrow> string \<Rightarrow> u64 \<Rightarrow> Block" where
  "make_genesis_block E genesis_note unix_time =
     (let coinbase = \<lparr>tx_version = 1, tx_nonce = 0, tx_amount = 0, from_pub_pem = [],
                       to_label = genesis_note, tx_signature = []\<rparr>;
          txs = [coinbase];
          h = \<lparr>hdr_version = 1, prev_hash = zero_array 32,
               merkle_root = compute_merkle_root E txs,
               hdr_timestamp = unix_time, hdr_nonce = 0\<rparr>
      in \<lparr>header = h, transactions = txs\<rparr>)"

fun is_zero_hash :: "Hash256 \<Rightarrow> bool" where
  "is_zero_hash [] = True"
| "is_zero_hash (c # cs) = (if c \<noteq> 0 then False else is_zero_hash cs)"

definition basic_block_sanity :: "openssl \<Rightarrow> Block \<Rightarrow> bool \<Rightarrow> bool" where
  "basic_block_sanity E block is_genesis =
     (if merkle_root (header block) \<noteq> compute_merkle_root E (transactions block) then False
      else if is_genesis \<and> \<not> is_zero_hash (prev_hash (header block)) then False
      else True)"

section \<open>Well-formed values\<close>

text \<open>The two arrays of a header have 32 bytes; the sizes of a block fit the length prefixes.\<close>

definition header_wf :: "BlockHeader \<Rightarrow> bool" where
  "header_wf h \<longleftrightarrow> length (prev_hash h) = 32 \<and> length (merkle_root h) = 32"

definition block_fits :: "Block \<Rightarrow> bool" where
  "block_fits b \<longleftrightarrow> header_wf (header b) \<and> length (transactions b) < 2 ^ 32 \<and>
     (\<forall>tx \<in> set (transactions b). tx_fits tx \<and> length (serialize_tx False tx) < 2 ^ 32)"

lemma is_zero_hash_iff: "is_zero_hash h \<longleftrightarrow> h = zero_array (length h)"
  by (induction h) (simp_all add: zero_array_def)

lemma is_zero_hash_32: "length h = 32 \<Longrightarrow> is_zero_hash h \<longleftrightarrow> h = zero_array 32"
  by (simp add: is_zero_hash_iff)

lemma serialize_header_eq:
  "serialize_header h = le_bytes (hdr_version h) @ prev_hash h @ merkle_root h @
     le_bytes (hdr_timestamp h) @ le_bytes (hdr_nonce h)"
  by (simp add: serialize_header_def take_buffer_def Let_def)

lemma length_serialize_header: "header_wf h \<Longrightarrow> length (serialize_header h) = 84"
  by (simp add: serialize_header_eq header_wf_def)

lemma serialize_header_inject:
  assumes "serialize_header g = serialize_header h" and "header_wf g" and "header_wf h"
  shows "g = h"
proof -
  from assms have "hdr_version g = hdr_version h" "prev_hash g = prev_hash h"
    "merkle_root g = merkle_root h" "hdr_timestamp g = hdr_timestamp h" "hdr_nonce g = hdr_nonce h"
    by (simp_all add: serialize_header_eq header_wf_def)
  then show ?thesis by (cases g; cases h) simp
qed

definition lp_tx :: "Transaction \<Rightarrow> bytes" where
  "lp_tx tx = lp_bytes (serialize_tx False tx)"

lemma wbuf_foldl_append:
  assumes "\<And>w x. wbuf (f w x) = wbuf w @ g x"
  shows "wbuf (foldl f w xs) = wbuf w @ concat (map g xs)"
  using assms by (induction xs arbitrary: w) simp_all

lemma serialize_block_eq:
  "serialize_block b = serialize_header (header b) @ u32_prefix (length (transactions b)) @
     concat (map lp_tx (transactions b))"
  by (simp add: serialize_block_def take_buffer_def Let_def u32_prefix_def
      wbuf_foldl_append [where g = lp_tx] lp_tx_def lp_bytes_def)

lemma length_hash_header [simp, size_simps]: "length (hash_header E h) = 32"
  by (simp add: hash_header_def)

lemma length_compute_merkle_root [simp, size_simps]: "length (compute_merkle_root E txs) = 32"
  by (simp add: compute_merkle_root_def)

lemma hashes_tx_hash [simp]: "hashes (map (tx_hash E) txs)"
  by (simp add: hashes_def tx_hash_def)

lemma compute_merkle_root_Nil: "compute_merkle_root E [] = empty_merkle_root E"
  by (simp add: compute_merkle_root_def root_def empty_root_def empty_merkle_root_def)

lemma compute_merkle_root_duplicate_last:
  "even (length txs) \<Longrightarrow> compute_merkle_root E (txs @ [tx, tx]) = compute_merkle_root E (txs @ [tx])"
  by (simp add: compute_merkle_root_def root_duplicate_last_aux)

section \<open>What a block hash commits to\<close>

definition unsigned :: "Transaction \<Rightarrow> Transaction" where
  "unsigned tx = tx\<lparr>tx_signature := []\<rparr>"

text \<open>
  The inputs of SHA-256 behind a block's hash: the header, the inner nodes of the Merkle tree and
  the signed bytes of the transactions.
\<close>

definition block_inputs :: "openssl \<Rightarrow> Block \<Rightarrow> bytes list" where
  "block_inputs E b =
     serialize_header (header b) # root_inputs E (map (tx_hash E) (transactions b)) @
       map (serialize_tx True) (transactions b)"

lemma length_tree_inputs:
  "length xs = length ys \<Longrightarrow> length (tree_inputs E xs) = length (tree_inputs E ys)"
proof (induction E xs arbitrary: ys rule: tree_inputs.induct)
  case (1 E xs)
  then show ?case
    by (cases "1 < length xs") (simp_all add: tree_inputs.simps [of E xs] tree_inputs.simps [of E ys])
qed

lemma length_root_inputs:
  "length xs = length ys \<Longrightarrow> length (root_inputs E xs) = length (root_inputs E ys)"
  by (simp add: root_inputs_def length_tree_inputs)

lemma unsigned_map_inject:
  assumes "map (serialize_tx True) xs = map (serialize_tx True) ys"
    and "\<forall>tx \<in> set xs. tx_fits tx" and "\<forall>tx \<in> set ys. tx_fits tx"
  shows "map unsigned xs = map unsigned ys"
proof -
  have len: "length xs = length ys" using assms(1) by (metis length_map)
  show ?thesis
  proof (rule nth_equalityI)
    fix i
    assume "i < length (map unsigned xs)"
    then have i: "i < length xs" "i < length ys" using len by simp_all
    from assms(1) i have "serialize_tx True (xs ! i) = serialize_tx True (ys ! i)" by (metis nth_map)
    then show "map unsigned xs ! i = map unsigned ys ! i"
      using i assms(2,3) signing_bytes_inject [of "xs ! i" "ys ! i"]
      by (auto simp: unsigned_def tx_fits_def)
  qed (simp add: len)
qed

lemma merkle_commits:
  assumes "compute_merkle_root E xs = compute_merkle_root E ys" and "length xs = length ys"
    and "\<forall>tx \<in> set xs. tx_fits tx" and "\<forall>tx \<in> set ys. tx_fits tx"
  shows "map unsigned xs = map unsigned ys \<or>
    clash E (root_inputs E (map (tx_hash E) xs) @ map (serialize_tx True) xs)
      (root_inputs E (map (tx_hash E) ys) @ map (serialize_tx True) ys)"
proof (cases "map (tx_hash E) xs = map (tx_hash E) ys")
  case True
  then have "map (sha256 E) (map (serialize_tx True) xs) = map (sha256 E) (map (serialize_tx True) ys)"
    by (simp add: tx_hash_def [abs_def] o_def)
  then have "map (serialize_tx True) xs = map (serialize_tx True) ys \<or>
      clash E (map (serialize_tx True) xs) (map (serialize_tx True) ys)"
    using clash_map_sha [of "map (serialize_tx True) xs" "map (serialize_tx True) ys"] assms(2) by auto
  then show ?thesis
    using unsigned_map_inject [OF _ assms(3,4)] True by (auto simp: clash_append)
next
  case False
  have "clash E (root_inputs E (map (tx_hash E) xs)) (root_inputs E (map (tx_hash E) ys))"
    by (rule root_binding_aux) (use assms False in \<open>simp_all add: compute_merkle_root_def\<close>)
  then show ?thesis
    by (simp add: clash_append length_root_inputs assms(2))
qed

lemma basic_block_sanityD:
  "basic_block_sanity E b g \<Longrightarrow> merkle_root (header b) = compute_merkle_root E (transactions b)"
  by (simp add: basic_block_sanity_def split: if_splits)

section \<open>Properties\<close>

text \<open>The hash of a block commits to its header and to every field of its transactions but the
  signatures: two sane blocks with the same hash and as many transactions agree on them, or the
  inputs hashed for the two blocks contain a collision of SHA-256 at the same place.\<close>

theorem block_hash_commits:
  assumes "hash_header E (header a) = hash_header E (header b)"
    and "basic_block_sanity E a ga" and "basic_block_sanity E b gb"
    and "length (transactions a) = length (transactions b)" and "block_fits a" and "block_fits b"
  shows "header a = header b \<and> map unsigned (transactions a) = map unsigned (transactions b) \<or>
         clash E (block_inputs E a) (block_inputs E b)"
proof (cases "header a = header b")
  case True
  with assms(2,3) have "compute_merkle_root E (transactions a) = compute_merkle_root E (transactions b)"
    by (metis basic_block_sanityD)
  with True merkle_commits [OF this assms(4)] assms(5,6) show ?thesis
    by (auto simp: block_fits_def block_inputs_def clash_Cons)
next
  case False
  then have "serialize_header (header a) \<noteq> serialize_header (header b)"
    using serialize_header_inject assms(5,6) by (auto simp: block_fits_def)
  with assms(1) show ?thesis
    by (simp add: block_inputs_def clash_Cons collision_def hash_header_def)
qed

theorem block_hash_commits_witness:
  "let a = make_genesis_block sample_openssl ''g'' 1700000000;
       b = a\<lparr>transactions := map (\<lambda>tx. tx\<lparr>tx_signature := [7]\<rparr>) (transactions a)\<rparr>
   in header a = header b \<and> map unsigned (transactions a) = map unsigned (transactions b) \<or>
      clash sample_openssl (block_inputs sample_openssl a) (block_inputs sample_openssl b)"
  unfolding Let_def
  by (rule block_hash_commits [where ga = True and gb = True])
    (simp_all add: make_genesis_block_def basic_block_sanity_def Let_def block_fits_def header_wf_def tx_fits_def
      length_serialize_tx compute_merkle_root_def is_zero_hash_iff tx_hash_def serialize_tx_eq tx_prefix_def)

text \<open>A header serializes to exactly 84 bytes, with its fields at fixed offsets: the version at
  0, the raw hashes (no length prefix) at 4 and 36, the timestamp at 68 and the nonce at 76.\<close>

theorem header_layout:
  assumes "header_wf h"
  shows "length (serialize_header h) = 84 \<and>
    of_le_bytes (take 4 (serialize_header h)) = hdr_version h \<and>
    take 32 (drop 4 (serialize_header h)) = prev_hash h \<and>
    take 32 (drop 36 (serialize_header h)) = merkle_root h \<and>
    of_le_bytes (take 8 (drop 68 (serialize_header h))) = hdr_timestamp h \<and>
    of_le_bytes (take 8 (drop 76 (serialize_header h))) = hdr_nonce h"
  using assms by (simp add: serialize_header_eq header_wf_def)

theorem header_layout_witness:
  "header_wf new_BlockHeader \<and> length (serialize_header new_BlockHeader) = 84"
  using header_layout [of new_BlockHeader] by (simp add: header_wf_def new_BlockHeader_def)

text \<open>The genesis block passes the sanity check for a genesis block, has one unsigned coinbase
  transaction and a well-formed header.\<close>

theorem genesis_block_sane:
  "basic_block_sanity E (make_genesis_block E note t) True \<and>
   header_wf (header (make_genesis_block E note t)) \<and>
   (\<exists>coinbase. transactions (make_genesis_block E note t) = [coinbase] \<and> from_pub_pem coinbase = [])"
  by (simp add: basic_block_sanity_def make_genesis_block_def Let_def header_wf_def is_zero_hash_32)

text \<open>The Merkle root of a block does not depend on the signatures of its transactions.\<close>

theorem merkle_root_ignores_signatures:
  "compute_merkle_root E (map unsigned txs) = compute_merkle_root E txs"
  by (simp add: compute_merkle_root_def unsigned_def o_def)

end
