(* ===== verification/Astro_Pow.thy ===== *)
theory Astro_Pow
  imports Astro_Sample
begin

text \<open>
  include/astro/core/pow.hpp and src/core/pow.cpp: counting the leading zero bits of a hash, and the
  difficulty test. The counts are \<open>uint32_t\<close> values, the byte is shifted at its own width.
\<close>

definition leading_zero_bits_one_byte :: "u8 \<Rightarrow> u32" where
  "leading_zero_bits_one_byte x =
     (if x = 0 then 8
      else let n = 0;
               (n, x) = (if x AND 0xF0 = 0 then (n + 4, push_bit 4 x) else (n, x));
               (n, x) = (if x AND 0xC0 = 0 then (n + 2, push_bit 2 x) else (n, x));
               n = (if x AND 0x80 = 0 then n + 1 else n)
           in n)"

text \<open>The loop over the bytes: \<open>continue\<close> on a zero byte, \<open>break\<close> after the first other one.\<close>

fun leading_zero_bits_loop :: "u32 \<Rightarrow> bytes \<Rightarrow> u32" where
  "leading_zero_bits_loop z [] = z"
| "leading_zero_bits_loop z (b # bs) =
     (if b = 0 then leading_zero_bits_loop (z + 8) bs
      else z + leading_zero_bits_one_byte b)"

definition leading_zero_bits :: "Hash256 \<Rightarrow> u32" where
  "leading_zero_bits hash = leading_zero_bits_loop 0 hash"

definition meets_difficulty :: "u32 \<Rightarrow> Hash256 \<Rightarrow> bool" where
  "meets_difficulty difficulty_bits hash = (difficulty_bits \<le> leading_zero_bits hash)"

section \<open>One byte\<close>

lemma and_not_mask_zero_iff:
  "x AND NOT (mask n) = 0 \<longleftrightarrow> unat x < 2 ^ n" for x :: "'a::len word"
proof -
  have "x AND NOT (mask n) = 0 \<longleftrightarrow> take_bit n x = x"
    by (auto simp: bit_eq_iff bit_and_iff bit_not_iff bit_mask_iff bit_take_bit_iff)
  also have "\<dots> \<longleftrightarrow> unat x < 2 ^ n"
    by (metis take_bit_nat_eq_self_iff unsigned_take_bit_eq word_unat_eq_iff)
  finally show ?thesis .
qed

lemma mask_tests:
  "x AND 0xF0 = 0 \<longleftrightarrow> unat x < 16" "x AND 0xC0 = 0 \<longleftrightarrow> unat x < 64" "x AND 0x80 = 0 \<longleftrightarrow> unat x < 128"
  for x :: u8
proof -
  have "NOT (mask 4) = (0xF0 :: u8)" "NOT (mask 6) = (0xC0 :: u8)" "NOT (mask 7) = (0x80 :: u8)"
    by (simp_all add: mask_eq_exp_minus_1)
  then show "x AND 0xF0 = 0 \<longleftrightarrow> unat x < 16" "x AND 0xC0 = 0 \<longleftrightarrow> unat x < 64"
    "x AND 0x80 = 0 \<longleftrightarrow> unat x < 128"
    using and_not_mask_zero_iff [of x 4] and_not_mask_zero_iff [of x 6] and_not_mask_zero_iff [of x 7]
    by simp_all
qed

lemma unat_push_bit_u8:
  "unat x < 16 \<Longrightarrow> unat (push_bit 4 x) = 16 * unat x"
  "unat x < 64 \<Longrightarrow> unat (push_bit 2 x) = 4 * unat x"
  "unat x < 4 \<Longrightarrow> unat (push_bit 6 x) = 64 * unat x"
  for x :: u8
  by (simp_all add: push_bit_eq_mult unat_word_ariths)

text \<open>The position of the highest set bit of a non-zero byte.\<close>

lemma leading_zero_bits_one_byte_range:
  assumes "x \<noteq> 0"
  defines "k \<equiv> unat (leading_zero_bits_one_byte x)"
  shows "k < 8" and "2 ^ (7 - k) \<le> unat x" and "unat x < 2 ^ (8 - k)"
proof -
  have "0 < unat x" "unat x < 256"
    using assms(1) unsigned_less [of x] by (simp_all add: unat_gt_0)
  then have "k < 8 \<and> 2 ^ (7 - k) \<le> unat x \<and> unat x < 2 ^ (8 - k)"
    unfolding k_def leading_zero_bits_one_byte_def using assms(1)
    by (simp add: mask_tests unat_push_bit_u8 Let_def split: if_splits)
  then show "k < 8" and "2 ^ (7 - k) \<le> unat x" and "unat x < 2 ^ (8 - k)" by simp_all
qed

section \<open>The hash as a number\<close>

text \<open>The value of a byte string read big-endian: the number proof of work compares with a target.\<close>

fun be_nat :: "bytes \<Rightarrow> nat" where
  "be_nat [] = 0"
| "be_nat (b # bs) = unat b * 2 ^ (8 * length bs) + be_nat bs"

lemma be_nat_less: "be_nat bs < 2 ^ (8 * length bs)"
proof (induction bs)
  case Nil
  show ?case by simp
next
  case (Cons b bs)
  have "unat b < 256" using unsigned_less [of b] by simp
  then have "(unat b + 1) * 2 ^ (8 * length bs) \<le> 256 * 2 ^ (8 * length bs)"
    by (intro mult_le_mono1) simp
  then have "unat b * 2 ^ (8 * length bs) + 2 ^ (8 * length bs) \<le> 2 ^ (8 * length (b # bs))"
    by (simp add: power_add distrib_right del: mult_le_cancel2)
  with Cons.IH show ?case by simp
qed

text \<open>The loop with its counter read as a natural number; 32 bytes cannot overflow it.\<close>

fun zero_bits :: "bytes \<Rightarrow> nat" where
  "zero_bits [] = 0"
| "zero_bits (b # bs) = (if b = 0 then 8 + zero_bits bs else unat (leading_zero_bits_one_byte b))"

lemma zero_bits_le: "zero_bits bs \<le> 8 * length bs"
  by (induction bs) (auto dest: leading_zero_bits_one_byte_range(1))

lemma leading_zero_bits_loop_eq:
  "unat z + 8 * length bs < 2 ^ 32 \<Longrightarrow> unat (leading_zero_bits_loop z bs) = unat z + zero_bits bs"
proof (induction z bs rule: leading_zero_bits_loop.induct)
  case (1 z)
  show ?case by simp
next
  case (2 z b bs)
  show ?case
  proof (cases "b = 0")
    case True
    have "unat (z + 8) = unat z + 8"
      using "2.prems" by (simp add: unat_word_ariths)
    with True "2.IH" [OF True] "2.prems" show ?thesis by simp
  next
    case False
    then have "unat (leading_zero_bits_one_byte b) < 8"
      by (rule leading_zero_bits_one_byte_range(1))
    with False "2.prems" show ?thesis by (simp add: unat_word_ariths)
  qed
qed

lemma leading_zero_bits_eq: "length h = 32 \<Longrightarrow> unat (leading_zero_bits h) = zero_bits h"
  by (simp add: leading_zero_bits_def leading_zero_bits_loop_eq)

lemma zero_bits_target:
  "d \<le> 8 * length bs \<Longrightarrow> d \<le> zero_bits bs \<longleftrightarrow> be_nat bs < 2 ^ (8 * length bs - d)"
proof (induction bs arbitrary: d)
  case Nil
  then show ?case by simp
next
  case (Cons b bs)
  let ?m = "8 * length bs"
  show ?case
  proof (cases "b = 0")
    case True
    show ?thesis
    proof (cases "d \<le> 8")
      case d: True
      have "be_nat bs < 2 ^ ?m" by (rule be_nat_less)
      also have "\<dots> \<le> 2 ^ (?m + 8 - d)" using d by (intro power_increasing) simp_all
      finally show ?thesis using True d by (simp add: add.commute)
    next
      case d: False
      then have "d \<le> 8 + zero_bits bs \<longleftrightarrow> d - 8 \<le> zero_bits bs" by linarith
      with Cons.IH [of "d - 8"] Cons.prems d True show ?thesis by (simp add: add.commute)
    qed
  next
    case False
    define k where "k = unat (leading_zero_bits_one_byte b)"
    have k: "k < 8" and lo: "2 ^ (7 - k) \<le> unat b" and hi: "unat b < 2 ^ (8 - k)"
      using leading_zero_bits_one_byte_range [OF False] by (simp_all add: k_def)
    let ?v = "unat b * 2 ^ ?m + be_nat bs"
    have "?v < (unat b + 1) * 2 ^ ?m" using be_nat_less [of bs] by simp
    also have "\<dots> \<le> 2 ^ (8 - k) * 2 ^ ?m" using hi by (intro mult_le_mono1) simp
    finally have up: "?v < 2 ^ (8 - k + ?m)" by (simp add: power_add)
    have "2 ^ (7 - k) * 2 ^ ?m \<le> unat b * 2 ^ ?m" using lo by (intro mult_le_mono1)
    then have down: "2 ^ (7 - k + ?m) \<le> ?v" unfolding power_add by linarith
    have "d \<le> k \<longleftrightarrow> ?v < 2 ^ (?m + 8 - d)"
    proof
      assume "d \<le> k"
      then have "(2::nat) ^ (8 - k + ?m) \<le> 2 ^ (?m + 8 - d)" using k by (intro power_increasing) simp_all
      with up show "?v < 2 ^ (?m + 8 - d)" by (rule order_less_le_trans)
    next
      assume "?v < 2 ^ (?m + 8 - d)"
      with down have "(2::nat) ^ (7 - k + ?m) < 2 ^ (?m + 8 - d)" by (rule order_le_less_trans)
      then have "7 - k + ?m < ?m + 8 - d" by (rule power_less_imp_less_exp [rotated]) simp
      then show "d \<le> k" using k by linarith
    qed
    with False show ?thesis by (simp add: k_def add.commute)
  qed
qed

section \<open>Properties\<close>

text \<open>C8: a 32-byte hash meets a difficulty of \<open>d\<close> bits exactly when \<open>d\<close> is at most 256 and the
  hash, read as a big-endian number, is below the target \<open>2 ^ (256 - d)\<close>.\<close>

theorem meets_difficulty_target:
  assumes "length hash = 32"
  shows "meets_difficulty d hash \<longleftrightarrow> unat d \<le> 256 \<and> be_nat hash < 2 ^ (256 - unat d)"
proof -
  have "meets_difficulty d hash \<longleftrightarrow> unat d \<le> zero_bits hash"
    by (simp add: meets_difficulty_def word_le_nat_alt leading_zero_bits_eq assms)
  with zero_bits_target [of "unat d" hash] zero_bits_le [of hash] assms show ?thesis by auto
qed

theorem meets_difficulty_target_witness:
  "length (replicate 32 (1 :: u8)) = 32 \<and>
   (meets_difficulty 7 (replicate 32 1) \<longleftrightarrow>
      unat (7 :: u32) \<le> 256 \<and> be_nat (replicate 32 1) < 2 ^ (256 - unat (7 :: u32)))"
  using meets_difficulty_target [of "replicate 32 1" 7] by simp

text \<open>The count is that of a reference definition over natural numbers and at most 256, so the
  32-bit counter never wraps and no hash meets a difficulty above 256.\<close>

theorem leading_zero_bits_bound:
  assumes "length hash = 32"
  shows "unat (leading_zero_bits hash) = zero_bits hash \<and> leading_zero_bits hash \<le> 256"
  using leading_zero_bits_eq [OF assms] zero_bits_le [of hash] assms
  by (simp add: word_le_nat_alt)

theorem leading_zero_bits_bound_witness:
  "unat (leading_zero_bits (zero_array 32)) = zero_bits (zero_array 32) \<and>
   leading_zero_bits (zero_array 32) \<le> 256"
  using leading_zero_bits_bound [of "zero_array 32"] by simp

text \<open>The sample digest has 31 zero bytes in front.\<close>

lemma sample_sha_zero_bits: "248 \<le> leading_zero_bits (sha256 sample_openssl data)"
proof -
  have "248 \<le> zero_bits (replicate 31 0 @ [sample_checksum data])"
    by (simp add: numeral_eq_Suc)
  then show ?thesis
    using leading_zero_bits_eq [of "sha256 sample_openssl data"]
    by (simp add: sample_sha256 word_le_nat_alt)
qed

end
