(* ===== verification/Astro_Chain.thy ===== *)
theory Astro_Chain
  imports Astro_Block Astro_Pow
begin

text \<open>
  include/astro/core/chain.hpp and the in-memory part of src/core/chain.cpp: validation of a block
  against the tip of the chain, appending, and building the next block. \<open>Transaction::verify\<close> throws
  on a public key it cannot parse and \<open>validate_block\<close> does not catch it, so validation has an
  exceptional outcome beside its result.
\<close>

section \<open>Data\<close>

datatype ValidationError =
    NoError
  | EmptyChainButNotGenesis
  | NonZeroPrevHashForGenesis
  | BadPrevLink
  | NonMonotonicTimestamp
  | BadMerkleRoot
  | BadTransactionSignature
  | CoinBaseMisplaced
  | CoinbaseInNonGenesisBlock
  | InsufficientPOW

record ValidationResult =
  is_valid :: bool
  error :: ValidationError
  transaction_index :: u64

record ChainConfig =
  difficulty_bits :: u32
  enforce_genesis_pow :: bool

record Chain =
  config :: ChainConfig
  blocks :: "Block list"

definition default_config :: ChainConfig where
  "default_config = \<lparr>difficulty_bits = 0, enforce_genesis_pow = False\<rparr>"

definition new_Chain :: "ChainConfig \<Rightarrow> Chain" where
  "new_Chain cfg = \<lparr>config = cfg, blocks = []\<rparr>"

section \<open>Observers\<close>

definition set_difficulty_bits :: "u32 \<Rightarrow> Chain \<Rightarrow> Chain" where
  "set_difficulty_bits bits c = c\<lparr>config := (config c)\<lparr>difficulty_bits := bits\<rparr>\<rparr>"

definition height :: "Chain \<Rightarrow> nat" where
  "height c = length (blocks c)"

definition tip_hash :: "openssl \<Rightarrow> Chain \<Rightarrow> Hash256 option" where
  "tip_hash E c = (if blocks c = [] then None else Some (hash_header E (header (last (blocks c)))))"

definition tip :: "Chain \<Rightarrow> Block option" where
  "tip c = (if blocks c = [] then None else Some (last (blocks c)))"

definition block_at :: "Chain \<Rightarrow> nat \<Rightarrow> Block option" where
  "block_at c index = (if length (blocks c) \<le> index then None else Some (blocks c ! index))"

section \<open>Validation\<close>

text \<open>\<open>~0ull\<close>, the index of results that are not about a transaction.\<close>

definition no_index :: u64 where
  "no_index = NOT 0"

definition reject :: "ValidationError \<Rightarrow> u64 \<Rightarrow> ValidationResult" where
  "reject e i = \<lparr>is_valid = False, error = e, transaction_index = i\<rparr>"

definition accept :: ValidationResult where
  "accept = \<lparr>is_valid = True, error = NoError, transaction_index = no_index\<rparr>"

lemma is_valid_accept [simp]: "is_valid accept"
  by (simp add: accept_def)

text \<open>The index of the first transaction without a sender, counting from \<open>i\<close>.\<close>

fun find_coinbase :: "nat \<Rightarrow> Transaction list \<Rightarrow> nat option" where
  "find_coinbase i [] = None"
| "find_coinbase i (tx # txs) = (if from_pub_pem tx = [] then Some i else find_coinbase (i + 1) txs)"

text \<open>The index of the first transaction whose signature is refused, counting from \<open>i\<close>.\<close>

fun find_bad_signature :: "openssl \<Rightarrow> bool \<Rightarrow> nat \<Rightarrow> Transaction list \<Rightarrow> exn + nat option" where
  "find_bad_signature E is_genesis_candidate i [] = Inr None"
| "find_bad_signature E is_genesis_candidate i (tx # txs) =
     (if is_genesis_candidate \<and> i = 0 \<and> from_pub_pem tx = []
      then find_bad_signature E is_genesis_candidate (i + 1) txs
      else bindE (verify E tx) (\<lambda>ok.
             if \<not> ok then Inr (Some i)
             else find_bad_signature E is_genesis_candidate (i + 1) txs))"

definition validate_link :: "openssl \<Rightarrow> Chain \<Rightarrow> Block \<Rightarrow> ValidationResult option" where
  "validate_link E c block =
     (if blocks c = [] then
        (if \<not> is_zero_hash (prev_hash (header block))
         then Some (reject NonZeroPrevHashForGenesis no_index)
         else case transactions block of
                [] \<Rightarrow> None
              | tx # txs \<Rightarrow>
                  if from_pub_pem tx \<noteq> [] then Some (reject CoinBaseMisplaced 0)
                  else (case find_coinbase 1 txs of
                          Some i \<Rightarrow> Some (reject CoinBaseMisplaced (word_of_nat i))
                        | None \<Rightarrow> None))
      else
        (let parent_hash = hash_header E (header (last (blocks c)))
         in if prev_hash (header block) \<noteq> parent_hash then Some (reject BadPrevLink no_index)
            else if hdr_timestamp (header block) < hdr_timestamp (header (last (blocks c)))
            then Some (reject NonMonotonicTimestamp no_index)
            else case find_coinbase 0 (transactions block) of
                   Some i \<Rightarrow> Some (reject CoinbaseInNonGenesisBlock (word_of_nat i))
                 | None \<Rightarrow> None))"

definition validate_block :: "openssl \<Rightarrow> Chain \<Rightarrow> Block \<Rightarrow> exn + ValidationResult" where
  "validate_block E c block =
     (let is_genesis_candidate = (blocks c = []) in
      case validate_link E c block of
        Some result \<Rightarrow> Inr result
      | None \<Rightarrow>
          if compute_merkle_root E (transactions block) \<noteq> merkle_root (header block)
          then Inr (reject BadMerkleRoot no_index)
          else bindE (find_bad_signature E is_genesis_candidate 0 (transactions block)) (\<lambda>bad.
            case bad of
              Some i \<Rightarrow> Inr (reject BadTransactionSignature (word_of_nat i))
            | None \<Rightarrow>
                if 0 < difficulty_bits (config c) then
                  (if is_genesis_candidate \<and> \<not> enforce_genesis_pow (config c) then Inr accept
                   else if \<not> meets_difficulty (difficulty_bits (config c)) (hash_header E (header block))
                   then Inr (reject InsufficientPOW no_index)
                   else Inr accept)
                else Inr accept))"

section \<open>Appending and building\<close>

definition append_block :: "openssl \<Rightarrow> Block \<Rightarrow> Chain \<Rightarrow> (exn + ValidationResult) \<times> Chain" where
  "append_block E block c =
     (case validate_block E c block of
        Inl e \<Rightarrow> (Inl e, c)
      | Inr validation_result \<Rightarrow>
          if \<not> is_valid validation_result then (Inr validation_result, c)
          else (Inr validation_result, c\<lparr>blocks := blocks c @ [block]\<rparr>))"

definition build_block_from_transactions :: "openssl \<Rightarrow> Chain \<Rightarrow> Transaction list \<Rightarrow> u64 \<Rightarrow> Block" where
  "build_block_from_transactions E c txs timestamp =
     (let h = new_BlockHeader\<lparr>hdr_version := 1\<rparr>;
          h = (if blocks c \<noteq> [] then h\<lparr>prev_hash := hash_header E (header (last (blocks c)))\<rparr> else h);
          h = h\<lparr>merkle_root := compute_merkle_root E txs, hdr_timestamp := timestamp, hdr_nonce := 0\<rparr>
      in \<lparr>header = h, transactions = txs\<rparr>)"

section \<open>What validation decides\<close>

definition is_coinbase :: "Transaction \<Rightarrow> bool" where
  "is_coinbase tx \<longleftrightarrow> from_pub_pem tx = []"

text \<open>The place of a block after the blocks \<open>bs\<close>.\<close>

definition link_ok :: "openssl \<Rightarrow> Block list \<Rightarrow> Block \<Rightarrow> bool" where
  "link_ok E bs b \<longleftrightarrow>
     (if bs = [] then
        is_zero_hash (prev_hash (header b)) \<and>
        (\<forall>i < length (transactions b). is_coinbase (transactions b ! i) \<longleftrightarrow> i = 0)
      else
        prev_hash (header b) = hash_header E (header (last bs)) \<and>
        hdr_timestamp (header (last bs)) \<le> hdr_timestamp (header b) \<and>
        (\<forall>tx \<in> set (transactions b). \<not> is_coinbase tx))"

definition signatures_ok :: "openssl \<Rightarrow> Block list \<Rightarrow> Block \<Rightarrow> bool" where
  "signatures_ok E bs b \<longleftrightarrow>
     (\<forall>tx \<in> set (if bs = [] then tl (transactions b) else transactions b). verify E tx = Inr True)"

definition content_ok :: "openssl \<Rightarrow> Block list \<Rightarrow> Block \<Rightarrow> bool" where
  "content_ok E bs b \<longleftrightarrow>
     link_ok E bs b \<and> merkle_root (header b) = compute_merkle_root E (transactions b) \<and>
     signatures_ok E bs b"

definition pow_ok :: "openssl \<Rightarrow> ChainConfig \<Rightarrow> Block list \<Rightarrow> Block \<Rightarrow> bool" where
  "pow_ok E cfg bs b \<longleftrightarrow>
     difficulty_bits cfg = 0 \<or> (bs = [] \<and> \<not> enforce_genesis_pow cfg) \<or>
     meets_difficulty (difficulty_bits cfg) (hash_header E (header b))"

lemma find_coinbase_None: "find_coinbase i txs = None \<longleftrightarrow> (\<forall>tx \<in> set txs. \<not> is_coinbase tx)"
  by (induction i txs rule: find_coinbase.induct) (auto simp: is_coinbase_def)

lemma find_coinbase_Some:
  "find_coinbase i txs = Some k \<Longrightarrow>
     i \<le> k \<and> k < i + length txs \<and> is_coinbase (txs ! (k - i)) \<and> (\<forall>j < k - i. \<not> is_coinbase (txs ! j))"
proof (induction i txs rule: find_coinbase.induct)
  case (1 i)
  then show ?case by simp
next
  case (2 i tx txs)
  show ?case
  proof (cases "from_pub_pem tx = []")
    case True
    with "2.prems" show ?thesis by (auto simp: is_coinbase_def)
  next
    case False
    with "2" have IH: "i + 1 \<le> k \<and> k < i + 1 + length txs \<and> is_coinbase (txs ! (k - (i + 1))) \<and>
        (\<forall>j < k - (i + 1). \<not> is_coinbase (txs ! j))" by simp
    then obtain m where k: "k = i + 1 + m" by (metis le_Suc_ex)
    with IH False show ?thesis
      by (auto simp: is_coinbase_def nth_Cons' less_Suc_eq_0_disj)
  qed
qed

lemma coinbase_only_first:
  "(\<forall>i < length txs. is_coinbase (txs ! i) \<longleftrightarrow> i = 0) \<longleftrightarrow>
     (case txs of [] \<Rightarrow> True | tx # ts \<Rightarrow> is_coinbase tx \<and> (\<forall>t \<in> set ts. \<not> is_coinbase t))"
  by (cases txs) (simp_all add: All_less_Suc2 all_set_conv_all_nth)

lemma validate_link_None: "validate_link E c b = None \<longleftrightarrow> link_ok E (blocks c) b"
proof (cases "blocks c = []")
  case True
  then have "validate_link E c b = None \<longleftrightarrow> is_zero_hash (prev_hash (header b)) \<and>
      (case transactions b of [] \<Rightarrow> True | tx # ts \<Rightarrow> is_coinbase tx \<and> find_coinbase 1 ts = None)"
    by (simp add: validate_link_def is_coinbase_def split: list.split option.split)
  with True show ?thesis
    by (simp add: link_ok_def coinbase_only_first find_coinbase_None split: list.split)
next
  case False
  then show ?thesis
    using find_coinbase_None [of 0 "transactions b"]
    by (auto simp: validate_link_def link_ok_def Let_def not_less split: option.splits)
qed

text \<open>The signature loop, when the genesis coinbase (if any) has been skipped.\<close>

lemma find_bad_signature_skip:
  assumes "g \<Longrightarrow> 0 < i"
  shows "find_bad_signature E g i txs = find_bad_signature E False i txs"
  using assms by (induction E g i txs rule: find_bad_signature.induct) (auto intro!: bindE_cong)

lemma find_bad_signature_None:
  "find_bad_signature E False i txs = Inr None \<longleftrightarrow> (\<forall>tx \<in> set txs. verify E tx = Inr True)"
  by (induction txs arbitrary: i) (auto simp: bindE_eq_Inr)

lemma find_bad_signature_Some:
  "find_bad_signature E False i txs = Inr (Some k) \<Longrightarrow>
     i \<le> k \<and> k < i + length txs \<and> verify E (txs ! (k - i)) = Inr False \<and>
     (\<forall>j < k - i. verify E (txs ! j) = Inr True)"
proof (induction txs arbitrary: i)
  case Nil
  then show ?case by simp
next
  case (Cons tx txs)
  then obtain ok where ok: "verify E tx = Inr ok"
    "(if \<not> ok then Inr (Some i) else find_bad_signature E False (i + 1) txs) = Inr (Some k)"
    by (auto simp: bindE_eq_Inr)
  show ?case
  proof (cases ok)
    case True
    with ok Cons.IH [of "i + 1"] have IH: "i + 1 \<le> k" "k < i + 1 + length txs"
      "verify E (txs ! (k - (i + 1))) = Inr False" "\<forall>j < k - (i + 1). verify E (txs ! j) = Inr True"
      by simp_all
    then obtain m where k: "k = i + 1 + m" by (metis le_Suc_ex)
    with IH ok(1) True show ?thesis by (auto simp: nth_Cons' less_Suc_eq_0_disj)
  next
    case False
    with ok show ?thesis by simp
  qed
qed

lemma find_bad_signature_throws:
  "find_bad_signature E False i txs = Inl e \<longleftrightarrow>
     (\<exists>k < length txs. verify E (txs ! k) = Inl e \<and> (\<forall>j < k. verify E (txs ! j) = Inr True))"
proof (induction txs arbitrary: i)
  case Nil
  then show ?case by simp
next
  case (Cons tx txs)
  then show ?case
    by (cases "verify E tx") (auto simp: Ex_less_Suc2 All_less_Suc2)
qed

lemma find_bad_signature_genesis:
  assumes "link_ok E [] b"
  shows "find_bad_signature E True 0 (transactions b) = find_bad_signature E False 1 (tl (transactions b))"
proof (cases "transactions b")
  case (Cons tx txs)
  with assms have "from_pub_pem tx = []"
    by (auto simp: link_ok_def coinbase_only_first is_coinbase_def)
  with Cons show ?thesis by (simp add: find_bad_signature_skip [of True])
qed simp

text \<open>The signature loop of \<open>validate_block\<close> decides \<open>signatures_ok\<close>.\<close>

lemma find_bad_signature_ok:
  assumes "link_ok E bs b"
  shows "find_bad_signature E (bs = []) 0 (transactions b) = Inr None \<longleftrightarrow> signatures_ok E bs b"
proof (cases "bs = []")
  case True
  with assms have "find_bad_signature E (bs = []) 0 (transactions b) =
      find_bad_signature E False 1 (tl (transactions b))"
    by (simp add: find_bad_signature_genesis)
  with True show ?thesis by (simp add: find_bad_signature_None signatures_ok_def)
next
  case False
  then show ?thesis by (simp add: find_bad_signature_None signatures_ok_def)
qed

lemma reject_simps [simp]:
  "\<not> is_valid (reject e i)" "error (reject e i) = e" "transaction_index (reject e i) = i"
  by (simp_all add: reject_def)

lemma accept_simps [simp]:
  "is_valid accept" "error accept = NoError" "transaction_index accept = no_index"
  by (simp_all add: accept_def)

lemma validate_link_Some: "validate_link E c b = Some r \<Longrightarrow> \<not> is_valid r"
  by (auto simp: validate_link_def Let_def split: if_splits list.splits option.splits)

lemma validate_block_cases:
  "validate_block E c b =
     (case validate_link E c b of
        Some r \<Rightarrow> Inr r
      | None \<Rightarrow>
          if compute_merkle_root E (transactions b) \<noteq> merkle_root (header b)
          then Inr (reject BadMerkleRoot no_index)
          else (case find_bad_signature E (blocks c = []) 0 (transactions b) of
                  Inl e \<Rightarrow> Inl e
                | Inr (Some i) \<Rightarrow> Inr (reject BadTransactionSignature (word_of_nat i))
                | Inr None \<Rightarrow>
                    if pow_ok E (config c) (blocks c) b then Inr accept
                    else Inr (reject InsufficientPOW no_index)))"
  by (auto simp: validate_block_def Let_def bindE_def pow_ok_def word_neq_0_conv
      split: option.split sum.split)

lemma validate_block_accepts:
  "(\<exists>r. validate_block E c b = Inr r \<and> is_valid r) \<longleftrightarrow>
     content_ok E (blocks c) b \<and> pow_ok E (config c) (blocks c) b"
proof (cases "validate_link E c b")
  case None
  then have link: "link_ok E (blocks c) b" by (simp add: validate_link_None)
  show ?thesis
    using find_bad_signature_ok [OF link] link None
    by (auto simp: validate_block_cases content_ok_def split: sum.splits option.splits)
next
  case (Some r)
  then have "\<not> link_ok E (blocks c) b" by (metis validate_link_None option.distinct(1))
  with Some show ?thesis
    by (auto simp: validate_block_cases content_ok_def dest: validate_link_Some)
qed

section \<open>The chain invariant\<close>

text \<open>Every block stands in its place after the blocks before it.\<close>

definition chain_ok :: "openssl \<Rightarrow> Block list \<Rightarrow> bool" where
  "chain_ok E bs \<longleftrightarrow> (\<forall>i < length bs. content_ok E (take i bs) (bs ! i))"

text \<open>Every block meets the difficulty a configuration asks of it.\<close>

definition chain_pow :: "openssl \<Rightarrow> ChainConfig \<Rightarrow> Block list \<Rightarrow> bool" where
  "chain_pow E cfg bs \<longleftrightarrow> (\<forall>i < length bs. pow_ok E cfg (take i bs) (bs ! i))"

lemma chain_ok_Nil [simp]: "chain_ok E []"
  by (simp add: chain_ok_def)

lemma chain_ok_snoc: "chain_ok E (bs @ [b]) \<longleftrightarrow> chain_ok E bs \<and> content_ok E bs b"
  by (auto simp: chain_ok_def nth_append less_Suc_eq)

lemma chain_pow_snoc: "chain_pow E cfg (bs @ [b]) \<longleftrightarrow> chain_pow E cfg bs \<and> pow_ok E cfg bs b"
  by (auto simp: chain_pow_def nth_append less_Suc_eq)

lemma append_block_cases:
  obtains (accepted) r where "append_block E b c = (Inr r, c\<lparr>blocks := blocks c @ [b]\<rparr>)"
      and "is_valid r" and "content_ok E (blocks c) b" and "pow_ok E (config c) (blocks c) b"
  | (rejected) r where "append_block E b c = (Inr r, c)" and "\<not> is_valid r"
  | (thrown) e where "append_block E b c = (Inl e, c)"
proof (cases "validate_block E c b")
  case (Inl e)
  then show ?thesis by (intro thrown) (simp add: append_block_def)
next
  case (Inr r)
  show ?thesis
  proof (cases "is_valid r")
    case True
    with Inr validate_block_accepts [of E c b] show ?thesis
      by (intro accepted [of r]) (auto simp: append_block_def)
  next
    case False
    with Inr show ?thesis by (intro rejected) (simp_all add: append_block_def)
  qed
qed

lemma append_block_chain_ok:
  "chain_ok E (blocks c) \<Longrightarrow> chain_ok E (blocks (snd (append_block E b c)))"
  by (cases rule: append_block_cases [of E b c]) (simp_all add: chain_ok_snoc)

lemma append_block_config [simp]: "config (snd (append_block E b c)) = config c"
  by (cases rule: append_block_cases [of E b c]) simp_all

lemma append_block_chain_pow:
  "chain_pow E (config c) (blocks c) \<Longrightarrow> chain_pow E (config c) (blocks (snd (append_block E b c)))"
  by (cases rule: append_block_cases [of E b c]) (simp_all add: chain_pow_snoc)

text \<open>The states of a \<open>Chain\<close> object: what its public operations can make of an empty chain.\<close>

inductive chain_step :: "openssl \<Rightarrow> Chain \<Rightarrow> Chain \<Rightarrow> bool" for E where
  append: "chain_step E c (snd (append_block E b c))"
| difficulty: "chain_step E c (set_difficulty_bits d c)"

inductive chain_reachable :: "openssl \<Rightarrow> Chain \<Rightarrow> bool" for E where
  start: "chain_reachable E (new_Chain cfg)"
| step: "chain_reachable E c \<Longrightarrow> chain_step E c c' \<Longrightarrow> chain_reachable E c'"

inductive_cases chain_stepE: "chain_step E c c'"

lemma chain_step_ok: "chain_step E c c' \<Longrightarrow> chain_ok E (blocks c) \<Longrightarrow> chain_ok E (blocks c')"
  by (auto elim!: chain_stepE simp: append_block_chain_ok set_difficulty_bits_def)

lemma chain_reachable_ok: "chain_reachable E c \<Longrightarrow> chain_ok E (blocks c)"
  by (induction rule: chain_reachable.induct) (auto simp: new_Chain_def intro: chain_step_ok)

lemma chain_step_grows:
  "chain_step E c c' \<Longrightarrow> \<exists>new. blocks c' = blocks c @ new \<and> length new \<le> 1"
proof (erule chain_stepE)
  fix b
  assume "c' = snd (append_block E b c)"
  then show ?thesis by (cases rule: append_block_cases [of E b c]) auto
qed (simp add: set_difficulty_bits_def)

section \<open>Consequences of the invariant\<close>

lemma chain_ok_link:
  assumes "chain_ok E bs" and "Suc i < length bs"
  shows "prev_hash (header (bs ! Suc i)) = hash_header E (header (bs ! i))"
    and "hdr_timestamp (header (bs ! i)) \<le> hdr_timestamp (header (bs ! Suc i))"
proof -
  have "link_ok E (take (Suc i) bs) (bs ! Suc i)"
    using assms by (simp add: chain_ok_def content_ok_def)
  moreover have "last (take (Suc i) bs) = bs ! i" and "take (Suc i) bs \<noteq> []"
    using assms(2) by (simp_all add: take_Suc_conv_app_nth)
  ultimately show "prev_hash (header (bs ! Suc i)) = hash_header E (header (bs ! i))"
    and "hdr_timestamp (header (bs ! i)) \<le> hdr_timestamp (header (bs ! Suc i))"
    by (simp_all add: link_ok_def)
qed

lemma chain_ok_sorted: "chain_ok E bs \<Longrightarrow> sorted (map (hdr_timestamp \<circ> header) bs)"
  by (auto simp: sorted_iff_nth_Suc intro: chain_ok_link)

lemma chain_ok_butlast: "chain_ok E bs \<Longrightarrow> chain_ok E (butlast bs)"
  by (cases bs rule: rev_cases) (simp_all add: chain_ok_snoc)

definition header_input :: "Block \<Rightarrow> bytes" where
  "header_input b = serialize_header (header b)"

text \<open>Equal tips pull equality of the headers down to the genesis block.\<close>

lemma headers_committed:
  assumes "length as = length bs" and "chain_ok E as" and "chain_ok E bs"
    and "\<forall>b \<in> set as \<union> set bs. header_wf (header b)"
    and "as \<noteq> []" and "hash_header E (header (last as)) = hash_header E (header (last bs))"
  shows "map header as = map header bs \<or>
    clash E (map header_input as) (map header_input bs)"
  using assms
proof (induction as arbitrary: bs rule: rev_induct)
  case Nil
  then show ?case by simp
next
  case (snoc a as)
  from snoc.prems(1) obtain b bs' where bs: "bs = bs' @ [b]" and len: "length as = length bs'"
    by (cases bs rule: rev_cases) auto
  let ?ser = header_input
  have clash: "clash E (map ?ser (as @ [a])) (map ?ser (bs' @ [b])) \<longleftrightarrow>
      clash E (map ?ser as) (map ?ser bs') \<or> collision (sha256 E) (?ser a) (?ser b)"
    using len by (simp add: clash_append clash_Cons) (simp add: clash_def)
  show ?case
  proof (cases "header a = header b")
    case False
    then have "?ser a \<noteq> ?ser b"
      using serialize_header_inject snoc.prems(4) bs by (auto simp: header_input_def)
    with snoc.prems(6) have "collision (sha256 E) (?ser a) (?ser b)"
      by (simp add: collision_def hash_header_def bs header_input_def)
    with clash bs show ?thesis by simp
  next
    case eq: True
    show ?thesis
    proof (cases "as = []")
      case True
      with eq bs len show ?thesis by simp
    next
      case False
      with len have ne: "bs' \<noteq> []" by auto
      have "hash_header E (header (last as)) = hash_header E (header (last bs'))"
        using snoc.prems(2,3) False ne eq bs
        by (auto simp: chain_ok_snoc content_ok_def link_ok_def)
      moreover have "chain_ok E as" "chain_ok E bs'" using snoc.prems(2,3) bs by (simp_all add: chain_ok_snoc)
      ultimately have "map header as = map header bs' \<or> clash E (map ?ser as) (map ?ser bs')"
        using snoc.IH [OF len] snoc.prems(4) False bs by simp
      with eq bs clash show ?thesis by auto
    qed
  qed
qed

section \<open>Blocks the code builds\<close>

lemma content_ok_genesis: "content_ok E [] (make_genesis_block E note t)"
  by (simp add: content_ok_def link_ok_def signatures_ok_def make_genesis_block_def Let_def
      is_zero_hash_32 is_coinbase_def)

lemma content_ok_built:
  assumes "blocks c \<noteq> []" and "hdr_timestamp (header (last (blocks c))) \<le> t"
    and "\<forall>tx \<in> set txs. \<not> is_coinbase tx \<and> verify E tx = Inr True"
  shows "content_ok E (blocks c) (build_block_from_transactions E c txs t)"
  using assms
  by (simp add: content_ok_def link_ok_def signatures_ok_def build_block_from_transactions_def Let_def)

lemma append_block_valid:
  assumes "content_ok E (blocks c) b" and "pow_ok E (config c) (blocks c) b"
  shows "append_block E b c = (Inr accept, c\<lparr>blocks := blocks c @ [b]\<rparr>)"
proof -
  obtain r where r: "validate_block E c b = Inr r" "is_valid r"
    using assms validate_block_accepts [of E c b] by blast
  then have "r = accept"
    by (auto simp: validate_block_cases split: option.splits if_splits sum.splits dest: validate_link_Some)
  with r show ?thesis by (simp add: append_block_def)
qed

lemma content_ok_duplicate_last:
  assumes "content_ok E bs (b\<lparr>transactions := txs @ [tx]\<rparr>)" and "bs \<noteq> []" and "even (length txs)"
  shows "content_ok E bs (b\<lparr>transactions := txs @ [tx, tx]\<rparr>)"
  using assms
  by (simp add: content_ok_def link_ok_def signatures_ok_def compute_merkle_root_duplicate_last)

section \<open>What an error means\<close>

text \<open>
  The violated rule behind each error code, with the rules that are checked before it and hold, and the
  first offender behind a transaction index.
\<close>

definition error_means :: "openssl \<Rightarrow> Chain \<Rightarrow> Block \<Rightarrow> ValidationResult \<Rightarrow> bool" where
  "error_means E c b r =
     (let i = unat (transaction_index r); txs = transactions b in
      case error r of
        NonZeroPrevHashForGenesis \<Rightarrow> blocks c = [] \<and> \<not> is_zero_hash (prev_hash (header b))
      | CoinBaseMisplaced \<Rightarrow> blocks c = [] \<and> is_zero_hash (prev_hash (header b)) \<and>
          i < length txs \<and> (is_coinbase (txs ! i) \<longleftrightarrow> i \<noteq> 0) \<and> (\<forall>j < i. is_coinbase (txs ! j) \<longleftrightarrow> j = 0)
      | BadPrevLink \<Rightarrow> blocks c \<noteq> [] \<and> Some (prev_hash (header b)) \<noteq> tip_hash E c
      | NonMonotonicTimestamp \<Rightarrow> blocks c \<noteq> [] \<and> Some (prev_hash (header b)) = tip_hash E c \<and>
          hdr_timestamp (header b) < hdr_timestamp (header (last (blocks c)))
      | CoinbaseInNonGenesisBlock \<Rightarrow> blocks c \<noteq> [] \<and> Some (prev_hash (header b)) = tip_hash E c \<and>
          hdr_timestamp (header (last (blocks c))) \<le> hdr_timestamp (header b) \<and>
          i < length txs \<and> is_coinbase (txs ! i) \<and> (\<forall>j < i. \<not> is_coinbase (txs ! j))
      | BadMerkleRoot \<Rightarrow> link_ok E (blocks c) b \<and> merkle_root (header b) \<noteq> compute_merkle_root E txs
      | BadTransactionSignature \<Rightarrow> link_ok E (blocks c) b \<and> merkle_root (header b) = compute_merkle_root E txs \<and>
          i < length txs \<and> verify E (txs ! i) = Inr False \<and>
          (\<forall>j < i. verify E (txs ! j) = Inr True \<or> blocks c = [] \<and> j = 0)
      | InsufficientPOW \<Rightarrow> content_ok E (blocks c) b \<and> \<not> pow_ok E (config c) (blocks c) b
      | NoError \<Rightarrow> False
      | EmptyChainButNotGenesis \<Rightarrow> False)"

lemma genesis_coinbase_error:
  assumes "blocks c = []" and "is_zero_hash (prev_hash (header b))" and "transactions b = tx # txs"
    and "is_coinbase tx" and "find_coinbase 1 txs = Some i" and "length (transactions b) < 2 ^ 64"
  shows "error_means E c b (reject CoinBaseMisplaced (word_of_nat i))"
proof -
  have i: "1 \<le> i" "i < 1 + length txs" "is_coinbase (txs ! (i - 1))" "\<forall>j < i - 1. \<not> is_coinbase (txs ! j)"
    using find_coinbase_Some [OF assms(5)] by simp_all
  then have "is_coinbase ((tx # txs) ! j) \<longleftrightarrow> j = 0" if "j < i" for j
    using that assms(4) by (cases j) auto
  with i assms show ?thesis by (simp add: error_means_def unat_u64_of_nat Let_def)
qed

lemma validate_link_error:
  assumes "validate_link E c b = Some r" and "length (transactions b) < 2 ^ 64"
  shows "error_means E c b r"
proof (cases "blocks c = []")
  case True
  then show ?thesis
    using assms genesis_coinbase_error [OF True _ _ _ _ assms(2)]
    by (auto simp: validate_link_def error_means_def is_coinbase_def Let_def
        split: if_splits list.splits option.splits)
next
  case False
  let ?last = "last (blocks c)"
  have "error_means E c b (reject CoinbaseInNonGenesisBlock (word_of_nat i))"
    if "find_coinbase 0 (transactions b) = Some i" and "prev_hash (header b) = hash_header E (header ?last)"
      and "hdr_timestamp (header ?last) \<le> hdr_timestamp (header b)" for i
    using find_coinbase_Some [OF that(1)] that(2,3) False assms(2)
    by (simp add: error_means_def unat_u64_of_nat tip_hash_def Let_def)
  with False assms(1) show ?thesis
    by (auto simp: validate_link_def error_means_def tip_hash_def Let_def not_less split: if_splits option.splits)
qed

lemma bad_signature_error:
  assumes "link_ok E (blocks c) b" and "merkle_root (header b) = compute_merkle_root E (transactions b)"
    and "find_bad_signature E (blocks c = []) 0 (transactions b) = Inr (Some i)"
    and "length (transactions b) < 2 ^ 64"
  shows "error_means E c b (reject BadTransactionSignature (word_of_nat i))"
proof -
  have "i < length (transactions b) \<and> verify E (transactions b ! i) = Inr False \<and>
      (\<forall>j < i. verify E (transactions b ! j) = Inr True \<or> blocks c = [] \<and> j = 0)"
  proof (cases "blocks c = []")
    case True
    with assms have bad: "find_bad_signature E False 1 (tl (transactions b)) = Inr (Some i)"
      by (simp add: find_bad_signature_genesis)
    from find_bad_signature_Some [OF bad] True show ?thesis
      by (cases "transactions b") (auto simp: nth_Cons')
  next
    case False
    with assms find_bad_signature_Some [of E 0 "transactions b" i] show ?thesis by simp
  qed
  with assms(1,2,4) show ?thesis by (simp add: error_means_def unat_u64_of_nat Let_def)
qed

section \<open>A concrete chain\<close>

definition sample_genesis :: Block where
  "sample_genesis = make_genesis_block sample_openssl ''g'' 1700000000"

definition sample_chain :: Chain where
  "sample_chain = \<lparr>config = default_config, blocks = [sample_genesis]\<rparr>"

definition sample_tx :: Transaction where
  "sample_tx = \<lparr>tx_version = 1, tx_nonce = 1, tx_amount = 42, from_pub_pem = [2, 0, 0, 0],
     to_label = ''x'', tx_signature = []\<rparr>"

definition sample_signed :: Transaction where
  "sample_signed = sample_tx\<lparr>tx_signature := [3, sample_checksum (serialize_tx True sample_tx)]\<rparr>"

lemma sample_signed_verifies: "verify sample_openssl sample_signed = Inr True"
proof -
  have "serialize_tx True sample_signed = serialize_tx True sample_tx"
    and "from_pub_pem sample_signed = [2, 0, 0, 0]"
    and "tx_signature sample_signed = [3, sample_checksum (serialize_tx True sample_tx)]"
    by (simp_all add: sample_signed_def) (simp add: sample_tx_def)
  then show ?thesis
    by (simp add: verify_def verify_message_def sample_openssl_def)
qed

lemma sample_signed_sender: "\<not> is_coinbase sample_signed"
  by (simp add: is_coinbase_def sample_signed_def sample_tx_def)

lemma sample_chain_reachable: "chain_reachable sample_openssl sample_chain"
proof -
  have "append_block sample_openssl sample_genesis (new_Chain default_config) = (Inr accept, sample_chain)"
    using append_block_valid [of sample_openssl "new_Chain default_config" sample_genesis]
      content_ok_genesis [of sample_openssl "''g''" 1700000000]
    by (simp add: new_Chain_def sample_genesis_def sample_chain_def pow_ok_def default_config_def)
  then have "sample_chain = snd (append_block sample_openssl sample_genesis (new_Chain default_config))"
    by simp
  then show ?thesis
    by (metis chain_reachable.start chain_reachable.step chain_step.append)
qed

definition sample_next :: Block where
  "sample_next = build_block_from_transactions sample_openssl sample_chain [sample_signed] 1700000001"

lemma sample_next_txs: "sample_next\<lparr>transactions := [sample_signed]\<rparr> = sample_next"
  by (simp add: sample_next_def build_block_from_transactions_def Let_def)

lemma sample_next_accepted:
  "append_block sample_openssl sample_next sample_chain =
     (Inr accept, sample_chain\<lparr>blocks := blocks sample_chain @ [sample_next]\<rparr>)"
  unfolding sample_next_def
  by (intro append_block_valid content_ok_built)
    (simp_all add: sample_signed_verifies sample_signed_sender sample_chain_def sample_genesis_def
      make_genesis_block_def default_config_def Let_def pow_ok_def)

text \<open>
  A second genesis block with another nonce: the last two bytes of the nonce, \<open>1\<close> and \<open>253\<close>, add a multiple of 256
  to the sample checksum, so both have the same hash and \<open>sample_next\<close> continues both.
\<close>

definition sample_twin :: Block where
  "sample_twin = sample_genesis\<lparr>header := (header sample_genesis)\<lparr>hdr_nonce := 0xFD01000000000000\<rparr>\<rparr>"

lemma sample_twin_hash:
  "hash_header sample_openssl (header sample_twin) = hash_header sample_openssl (header sample_genesis)"
proof -
  have bytes: "le_bytes (0xFD01000000000000 :: u64) = [0, 0, 0, 0, 0, 0, 1, 253]" "le_bytes (0 :: u64) = [0, 0, 0, 0, 0, 0, 0, 0]"
    by code_simp+
  have "foldl (\<lambda>acc b. 3 * acc + b) x [0, 0, 0, 0, 0, 0, 1, 253] = foldl (\<lambda>acc b. 3 * acc + b) x [0, 0, 0, 0, 0, 0, 0, 0]"
    for x :: u8 by (simp add: algebra_simps) code_simp
  then show ?thesis
    by (simp add: hash_header_def sample_sha256 sample_twin_def sample_genesis_def make_genesis_block_def Let_def
        serialize_header_eq sample_checksum_def bytes new_BlockHeader_def del: foldl_Cons)
qed

section \<open>Properties\<close>

text \<open>C1: \<open>validate_block\<close> accepts a block exactly when it satisfies the rules of the chain: the right
  place (links, timestamps, coinbase transactions), the Merkle root of its transactions, signatures
  that verify, and the configured proof of work.\<close>

theorem validate_block_correct:
  "(\<exists>r. validate_block E c b = Inr r \<and> is_valid r) \<longleftrightarrow>
     content_ok E (blocks c) b \<and> pow_ok E (config c) (blocks c) b"
  by (rule validate_block_accepts)

text \<open>C2: in every state a chain object can reach, each block after the first carries the hash of
  its predecessor and a timestamp not before it, timestamps are sorted, the first block has a zero
  previous hash, and every Merkle root and signature is right.\<close>

theorem chain_invariant:
  assumes "chain_reachable E c"
  shows "chain_ok E (blocks c) \<and>
    sorted (map (hdr_timestamp \<circ> header) (blocks c)) \<and>
    (\<forall>i. Suc i < length (blocks c) \<longrightarrow>
       prev_hash (header (blocks c ! Suc i)) = hash_header E (header (blocks c ! i))) \<and>
    (blocks c \<noteq> [] \<longrightarrow> is_zero_hash (prev_hash (header (hd (blocks c)))))"
proof -
  have ok: "chain_ok E (blocks c)" using assms by (rule chain_reachable_ok)
  moreover have "is_zero_hash (prev_hash (header (hd (blocks c))))" if "blocks c \<noteq> []"
    using ok that by (auto simp: chain_ok_def content_ok_def link_ok_def hd_conv_nth)
  ultimately show ?thesis by (simp add: chain_ok_sorted chain_ok_link)
qed

theorem chain_invariant_witness:
  "chain_ok sample_openssl (blocks sample_chain) \<and>
   sorted (map (hdr_timestamp \<circ> header) (blocks sample_chain)) \<and>
   is_zero_hash (prev_hash (header sample_genesis))"
  using chain_invariant [OF sample_chain_reachable] by (simp add: sample_chain_def)

text \<open>C9: the hash of the tip commits to the whole history: two chains of the same height with the
  same tip hash have the same headers, or two different headers at the same height collide.\<close>

theorem tip_hash_commits:
  assumes "chain_ok E (blocks c)" and "chain_ok E (blocks d)"
    and "\<forall>b \<in> set (blocks c) \<union> set (blocks d). header_wf (header b)"
    and "height c = height d" and "blocks c \<noteq> []" and "tip_hash E c = tip_hash E d"
  shows "map header (blocks c) = map header (blocks d) \<or>
    clash E (map header_input (blocks c)) (map header_input (blocks d))"
proof (rule headers_committed)
  show "length (blocks c) = length (blocks d)" using assms(4) by (simp add: height_def)
  then have "blocks d \<noteq> []" using assms(5) by auto
  then show "hash_header E (header (last (blocks c))) = hash_header E (header (last (blocks d)))"
    using assms(5,6) by (simp add: tip_hash_def)
qed (use assms in simp_all)

theorem tip_hash_commits_witness:
  "map header [sample_genesis, sample_next] \<noteq> map header [sample_twin, sample_next] \<and>
   clash sample_openssl (map header_input [sample_genesis, sample_next]) (map header_input [sample_twin, sample_next])"
proof -
  have differ: "map header [sample_genesis, sample_next] \<noteq> map header [sample_twin, sample_next]"
    by (simp add: sample_twin_def sample_genesis_def make_genesis_block_def Let_def)
  have "content_ok sample_openssl [sample_genesis] sample_next"
    using sample_next_accepted by (cases rule: append_block_cases [of sample_openssl sample_next sample_chain])
      (simp_all add: sample_chain_def)
  moreover from this have "content_ok sample_openssl [sample_twin] sample_next"
    by (simp add: content_ok_def link_ok_def signatures_ok_def sample_twin_hash) (simp add: sample_twin_def)
  moreover have "content_ok sample_openssl [] sample_genesis" "content_ok sample_openssl [] sample_twin"
    using content_ok_genesis [of sample_openssl "''g''" 1700000000]
    by (simp_all add: sample_twin_def sample_genesis_def content_ok_def link_ok_def signatures_ok_def)
  ultimately have "chain_ok sample_openssl ([] @ [sample_genesis] @ [sample_next])"
    "chain_ok sample_openssl ([] @ [sample_twin] @ [sample_next])"
    by (simp_all only: append_assoc [symmetric] chain_ok_snoc chain_ok_Nil) simp_all
  moreover have "header_wf (header sample_genesis)" "header_wf (header sample_twin)" "header_wf (header sample_next)"
    by (simp_all add: sample_twin_def sample_genesis_def sample_next_def sample_chain_def make_genesis_block_def
        build_block_from_transactions_def header_wf_def Let_def)
  ultimately show ?thesis
    using differ tip_hash_commits [of sample_openssl "sample_chain\<lparr>blocks := [sample_genesis, sample_next]\<rparr>"
        "sample_chain\<lparr>blocks := [sample_twin, sample_next]\<rparr>"]
    by (simp add: height_def tip_hash_def)
qed

text \<open>\<open>append_block\<close> adds the block at the end when validation accepts it and changes nothing when
  it is rejected or when verification throws.\<close>

theorem append_block_effect:
  "append_block E b c =
     (case validate_block E c b of
        Inl e \<Rightarrow> (Inl e, c)
      | Inr r \<Rightarrow> (Inr r, if content_ok E (blocks c) b \<and> pow_ok E (config c) (blocks c) b
                         then c\<lparr>blocks := blocks c @ [b]\<rparr> else c))"
  using validate_block_accepts [of E c b]
  by (auto simp: append_block_def split: sum.split)

text \<open>C27: a rejection names the first rule, in the order of the code, that the block violates: all rules
  checked before it hold, and where the rule is about transactions the index is that of the first offender (for
  blocks with fewer than \<open>2 ^ 64\<close> transactions); the codes \<open>None\<close> and \<open>EmptyChainButNotGenesis\<close> are never
  returned with a rejection.\<close>

theorem validate_block_error:
  assumes "validate_block E c b = Inr r" and "\<not> is_valid r" and "length (transactions b) < 2 ^ 64"
  shows "error_means E c b r"
proof (cases "validate_link E c b")
  case (Some r')
  with assms show ?thesis by (auto simp: validate_block_cases intro: validate_link_error)
next
  case None
  then have link: "link_ok E (blocks c) b" by (simp add: validate_link_None)
  show ?thesis
    using None assms link find_bad_signature_ok [OF link] bad_signature_error [OF link _ _ assms(3)]
    by (auto simp: validate_block_cases error_means_def content_ok_def
        split: if_splits sum.splits option.splits)
qed

theorem validate_block_error_witness:
  "error_means sample_openssl sample_chain sample_genesis (reject BadPrevLink no_index)"
proof (rule validate_block_error)
  show "validate_block sample_openssl sample_chain sample_genesis = Inr (reject BadPrevLink no_index)"
    by (simp add: validate_block_cases validate_link_def sample_chain_def sample_genesis_def
        make_genesis_block_def hash_header_def sample_sha256 zero_array_def Let_def) code_simp
qed (simp_all add: sample_genesis_def make_genesis_block_def Let_def)

text \<open>A genesis block made by \<open>make_genesis_block\<close> is accepted by an empty chain that does not
  enforce proof of work on it, and becomes its only block.\<close>

theorem genesis_accepted:
  assumes "difficulty_bits cfg = 0 \<or> \<not> enforce_genesis_pow cfg"
  shows "append_block E (make_genesis_block E note t) (new_Chain cfg) =
    (Inr accept, \<lparr>config = cfg, blocks = [make_genesis_block E note t]\<rparr>)"
  using append_block_valid [of E "new_Chain cfg" "make_genesis_block E note t"] assms
  by (auto simp: new_Chain_def content_ok_genesis pow_ok_def)

theorem genesis_accepted_witness:
  "append_block sample_openssl (make_genesis_block sample_openssl ''g'' 7)
     (new_Chain \<lparr>difficulty_bits = 20, enforce_genesis_pow = False\<rparr>) =
   (Inr accept, \<lparr>config = \<lparr>difficulty_bits = 20, enforce_genesis_pow = False\<rparr>,
                blocks = [make_genesis_block sample_openssl ''g'' 7]\<rparr>)"
  by (rule genesis_accepted) simp

text \<open>A block built by \<open>build_block_from_transactions\<close> from transactions signed by their senders,
  with a timestamp not before the tip, is accepted by a chain without difficulty and becomes its
  tip.\<close>

theorem built_block_accepted:
  assumes "blocks c \<noteq> []" and "hdr_timestamp (header (last (blocks c))) \<le> t"
    and "\<forall>tx \<in> set txs. \<not> is_coinbase tx \<and> verify E tx = Inr True"
    and "difficulty_bits (config c) = 0"
  shows "append_block E (build_block_from_transactions E c txs t) c =
      (Inr accept, c\<lparr>blocks := blocks c @ [build_block_from_transactions E c txs t]\<rparr>) \<and>
    tip (snd (append_block E (build_block_from_transactions E c txs t) c)) =
      Some (build_block_from_transactions E c txs t)"
  using append_block_valid [OF content_ok_built [OF assms(1-3)]] assms(4)
  by (simp add: pow_ok_def tip_def)

theorem built_block_accepted_witness:
  "append_block sample_openssl
      (build_block_from_transactions sample_openssl sample_chain [sample_signed] 1700000001) sample_chain =
    (Inr accept, sample_chain\<lparr>blocks := blocks sample_chain @
       [build_block_from_transactions sample_openssl sample_chain [sample_signed] 1700000001]\<rparr>) \<and>
   tip (snd (append_block sample_openssl
      (build_block_from_transactions sample_openssl sample_chain [sample_signed] 1700000001) sample_chain)) =
     Some (build_block_from_transactions sample_openssl sample_chain [sample_signed] 1700000001)"
  by (rule built_block_accepted)
    (simp_all add: sample_signed_verifies sample_signed_sender sample_chain_def sample_genesis_def
      make_genesis_block_def default_config_def Let_def)

text \<open>C40: the list of transactions behind a block hash is not unique: where a chain that has a genesis block
  accepts a block with an odd number of transactions, it also accepts the block with the last transaction
  repeated, and both have the same hash.\<close>

theorem duplicated_transaction_accepted:
  assumes "blocks c \<noteq> []" and "even (length txs)"
    and "append_block E (b\<lparr>transactions := txs @ [tx]\<rparr>) c = (Inr accept, c')"
  shows "append_block E (b\<lparr>transactions := txs @ [tx, tx]\<rparr>) c =
      (Inr accept, c\<lparr>blocks := blocks c @ [b\<lparr>transactions := txs @ [tx, tx]\<rparr>]\<rparr>) \<and>
    hash_header E (header (b\<lparr>transactions := txs @ [tx, tx]\<rparr>)) =
      hash_header E (header (b\<lparr>transactions := txs @ [tx]\<rparr>))"
proof -
  have "content_ok E (blocks c) (b\<lparr>transactions := txs @ [tx]\<rparr>)"
    and pow: "pow_ok E (config c) (blocks c) (b\<lparr>transactions := txs @ [tx]\<rparr>)"
    using assms(3)
    by (cases rule: append_block_cases [of E "b\<lparr>transactions := txs @ [tx]\<rparr>" c]; simp)+
  then have "content_ok E (blocks c) (b\<lparr>transactions := txs @ [tx, tx]\<rparr>)"
    using assms(1,2) by (intro content_ok_duplicate_last)
  moreover have "pow_ok E (config c) (blocks c) (b\<lparr>transactions := txs @ [tx, tx]\<rparr>)"
    using pow by (simp add: pow_ok_def)
  ultimately show ?thesis by (simp add: append_block_valid)
qed

theorem duplicated_transaction_accepted_witness:
  "append_block sample_openssl (sample_next\<lparr>transactions := [] @ [sample_signed, sample_signed]\<rparr>) sample_chain =
     (Inr accept, sample_chain\<lparr>blocks := blocks sample_chain @
        [sample_next\<lparr>transactions := [] @ [sample_signed, sample_signed]\<rparr>]\<rparr>) \<and>
   hash_header sample_openssl (header (sample_next\<lparr>transactions := [] @ [sample_signed, sample_signed]\<rparr>)) =
   hash_header sample_openssl (header (sample_next\<lparr>transactions := [] @ [sample_signed]\<rparr>))"
  by (rule duplicated_transaction_accepted [where c' = "sample_chain\<lparr>blocks := blocks sample_chain @ [sample_next]\<rparr>"])
    (simp_all add: sample_next_txs sample_next_accepted, simp add: sample_chain_def)

text \<open>C28: \<open>validate_block\<close> throws exactly when the block is in its place with the right Merkle root and
  verifying some transaction throws, those before it being good. A sender's key that OpenSSL cannot
  parse is such a case: it is not reported as a validation error.\<close>

theorem validate_block_throws:
  "validate_block E c b = Inl e \<longleftrightarrow>
     link_ok E (blocks c) b \<and> merkle_root (header b) = compute_merkle_root E (transactions b) \<and>
     (let txs = (if blocks c = [] then tl (transactions b) else transactions b)
      in \<exists>k < length txs. verify E (txs ! k) = Inl e \<and> (\<forall>j < k. verify E (txs ! j) = Inr True))"
proof (cases "validate_link E c b")
  case None
  then have link: "link_ok E (blocks c) b" by (simp add: validate_link_None)
  let ?i = "if blocks c = [] then 1 else 0"
  let ?txs = "if blocks c = [] then tl (transactions b) else transactions b"
  have "find_bad_signature E (blocks c = []) 0 (transactions b) = find_bad_signature E False ?i ?txs"
    using link by (cases "blocks c = []") (simp_all add: find_bad_signature_genesis)
  then have "find_bad_signature E (blocks c = []) 0 (transactions b) = Inl e \<longleftrightarrow>
      (\<exists>k < length ?txs. verify E (?txs ! k) = Inl e \<and> (\<forall>j < k. verify E (?txs ! j) = Inr True))"
    by (simp only: find_bad_signature_throws)
  moreover have "validate_block E c b = Inl e \<longleftrightarrow>
      merkle_root (header b) = compute_merkle_root E (transactions b) \<and>
      find_bad_signature E (blocks c = []) 0 (transactions b) = Inl e"
    using None by (auto simp: validate_block_cases split: sum.splits option.splits)
  ultimately show ?thesis using link unfolding Let_def by simp
next
  case (Some r)
  then have "\<not> link_ok E (blocks c) b" by (metis validate_link_None option.distinct(1))
  with Some show ?thesis by (simp add: validate_block_cases)
qed

theorem validate_block_throws_witness:
  "validate_block sample_openssl sample_chain
     (build_block_from_transactions sample_openssl sample_chain [sample_tx\<lparr>from_pub_pem := [9]\<rparr>] 1700000001) =
   Inl (RuntimeError ''PEM_read_bio_PUBKEY: error'')"
proof (subst validate_block_throws, unfold Let_def, intro conjI exI [of _ 0])
  let ?tx = "sample_tx\<lparr>from_pub_pem := [9]\<rparr>"
  show "link_ok sample_openssl (blocks sample_chain)
      (build_block_from_transactions sample_openssl sample_chain [?tx] 1700000001)"
    by (simp add: link_ok_def build_block_from_transactions_def is_coinbase_def sample_chain_def
        sample_genesis_def make_genesis_block_def Let_def)
  have "verify sample_openssl ?tx = Inl (RuntimeError ''PEM_read_bio_PUBKEY: error'')"
    by (simp add: verify_def verify_message_def throw_openssl_error_def sample_openssl_def)
  then show "verify sample_openssl ((if blocks sample_chain = []
        then tl (transactions (build_block_from_transactions sample_openssl sample_chain [?tx] 1700000001))
        else transactions (build_block_from_transactions sample_openssl sample_chain [?tx] 1700000001)) ! 0) =
      Inl (RuntimeError ''PEM_read_bio_PUBKEY: error'')"
    by (simp add: build_block_from_transactions_def sample_chain_def Let_def)
qed (simp_all add: build_block_from_transactions_def sample_chain_def Let_def)

text \<open>\<open>sha256\<close> fails open: when OpenSSL cannot allocate a digest context every hash is zero, so a
  block without transactions that claims zero hashes is accepted at any difficulty up to 256 bits,
  with whatever nonce.\<close>

theorem failed_digest_accepts_any_work:
  assumes "\<not> EVP_MD_CTX_new E" and "blocks c \<noteq> []" and "difficulty_bits (config c) \<le> 256"
    and "hdr_timestamp (header (last (blocks c))) \<le> t"
  shows "append_block E \<lparr>header = \<lparr>hdr_version = v, prev_hash = zero_array 32, merkle_root = zero_array 32,
        hdr_timestamp = t, hdr_nonce = n\<rparr>, transactions = []\<rparr> c =
    (Inr accept, c\<lparr>blocks := blocks c @ [\<lparr>header = \<lparr>hdr_version = v, prev_hash = zero_array 32,
        merkle_root = zero_array 32, hdr_timestamp = t, hdr_nonce = n\<rparr>, transactions = []\<rparr>]\<rparr>)"
proof (rule append_block_valid)
  have zero: "sha256 E data = zero_array 32" for data
    using assms(1) by (intro sha256_failed) simp
  have "zero_bits (zero_array 32) = 256"
    by (simp add: zero_array_def numeral_eq_Suc)
  then have "d \<le> 256 \<Longrightarrow> meets_difficulty d (zero_array 32)" for d
    by (simp add: meets_difficulty_def word_le_nat_alt leading_zero_bits_eq)
  with assms show "pow_ok E (config c) (blocks c) \<lparr>header = \<lparr>hdr_version = v, prev_hash = zero_array 32,
      merkle_root = zero_array 32, hdr_timestamp = t, hdr_nonce = n\<rparr>, transactions = []\<rparr>"
    by (simp add: pow_ok_def hash_header_def zero)
  show "content_ok E (blocks c) \<lparr>header = \<lparr>hdr_version = v, prev_hash = zero_array 32,
      merkle_root = zero_array 32, hdr_timestamp = t, hdr_nonce = n\<rparr>, transactions = []\<rparr>"
    using assms by (simp add: content_ok_def link_ok_def signatures_ok_def hash_header_def zero
        compute_merkle_root_def root_def empty_root_def)
qed

theorem failed_digest_accepts_any_work_witness:
  "append_block (sample_openssl\<lparr>EVP_MD_CTX_new := False\<rparr>) \<lparr>header = \<lparr>hdr_version = 1, prev_hash = zero_array 32,
     merkle_root = zero_array 32, hdr_timestamp = 1700000001, hdr_nonce = 9\<rparr>, transactions = []\<rparr>
     (set_difficulty_bits 256 sample_chain) =
   (Inr accept, (set_difficulty_bits 256 sample_chain)\<lparr>blocks := blocks (set_difficulty_bits 256 sample_chain) @
     [\<lparr>header = \<lparr>hdr_version = 1, prev_hash = zero_array 32, merkle_root = zero_array 32,
       hdr_timestamp = 1700000001, hdr_nonce = 9\<rparr>, transactions = []\<rparr>]\<rparr>)"
  by (rule failed_digest_accepts_any_work)
    (simp_all add: set_difficulty_bits_def sample_chain_def sample_genesis_def make_genesis_block_def Let_def)

end
