(* ===== verification/Astro_Block_Store.thy ===== *)
theory Astro_Block_Store
  imports Astro_Block
begin

text \<open>
  include/astro/storage/block_store.hpp and src/core/block_store.cpp: the append-only log of blocks.
  A record is a native-endian header, the serialized block and its SHA-256. The machine (byte order,
  allocation limits) and the outcomes of file operations are arguments of the definitions.
\<close>

section \<open>The machine and the file system\<close>

text \<open>
  \<open>alloc_bytes n\<close> and \<open>alloc_txs n\<close> say whether a vector of \<open>n\<close> bytes, or of \<open>n\<close> transactions, can
  be allocated: the sizes come from the file, so these two allocations may fail.
\<close>

record host =
  big_endian :: bool
  alloc_bytes :: "nat \<Rightarrow> bool"
  alloc_txs :: "nat \<Rightarrow> bool"

type_synonym path = string

record fs =
  dirs :: "path \<Rightarrow> bool"
  files :: "path \<rightharpoonup> bytes"

text \<open>
  Outcomes of the calls of one operation: whether directories can be created, the descriptor
  \<open>open\<close> returns, whether the two streams open, whether the output stream is still good after the
  writes, and how many of the bytes handed to it are in the file when the operation is left.
\<close>

record io =
  create_directories_ok :: bool
  open_fd :: int
  ofstream_open :: bool
  ofstream_good :: bool
  ofstream_flushed :: "nat \<Rightarrow> nat"
  ifstream_open :: bool

definition native_bytes :: "host \<Rightarrow> 'a::len word \<Rightarrow> bytes" where
  "native_bytes H v = (if big_endian H then rev (le_bytes v) else le_bytes v)"

definition of_native :: "host \<Rightarrow> bytes \<Rightarrow> 'a::len word" where
  "of_native H bs = of_le_bytes (if big_endian H then rev bs else bs)"

definition path_join :: "path \<Rightarrow> path \<Rightarrow> path" where
  "path_join a b = (if a = [] \<or> last a = CHR ''/'' then a @ b else a @ CHR ''/'' # b)"

section \<open>Opening the store\<close>

definition MAGIC :: u32 where "MAGIC = 0x41535452"
definition VER :: u64 where "VER = 1"
definition KIND_BLOCK :: u16 where "KIND_BLOCK = 1"

record RecordHeader =
  rec_magic :: u32
  rec_version :: u64
  rec_kind :: u16
  rec_length :: u64

record BlockStore =
  root_path :: path
  log_path :: path
  log_fd :: int

text \<open>\<open>open (O_CREAT | O_APPEND | O_WRONLY)\<close> creates an empty file where there is none.\<close>

definition open_write_log :: "io \<Rightarrow> BlockStore \<Rightarrow> fs \<Rightarrow> (exn + BlockStore) \<times> fs" where
  "open_write_log io store fs =
     (if open_fd io < 0 then (Inl (SystemError ''open write log''), fs)
      else (Inr (store\<lparr>log_fd := open_fd io\<rparr>),
            case files fs (log_path store) of
              None \<Rightarrow> fs\<lparr>files := (files fs)(log_path store \<mapsto> [])\<rparr>
            | Some _ \<Rightarrow> fs))"

definition close_write_log :: "BlockStore \<Rightarrow> BlockStore" where
  "close_write_log store = (if 0 \<le> log_fd store then store\<lparr>log_fd := -1\<rparr> else store)"

definition destroy_BlockStore :: "BlockStore \<Rightarrow> BlockStore" where
  "destroy_BlockStore store = close_write_log store"

definition new_BlockStore :: "io \<Rightarrow> path \<Rightarrow> fs \<Rightarrow> (exn + BlockStore) \<times> fs" where
  "new_BlockStore io dir fs =
     (if \<not> (dirs fs dir \<or> files fs dir \<noteq> None) \<and> \<not> create_directories_ok io
      then (Inl (SystemError ''create_directories''), fs)
      else
        let fs = (if \<not> (dirs fs dir \<or> files fs dir \<noteq> None)
                  then fs\<lparr>dirs := (dirs fs)(dir := True)\<rparr> else fs);
            store = \<lparr>root_path = dir, log_path = path_join dir ''chain.log'', log_fd = -1\<rparr>
        in open_write_log io store fs)"

section \<open>Appending\<close>

definition record_header_bytes :: "host \<Rightarrow> RecordHeader \<Rightarrow> bytes" where
  "record_header_bytes H h =
     native_bytes H (rec_magic h) @ native_bytes H (rec_version h) @ native_bytes H (rec_kind h) @
     native_bytes H (rec_length h)"

definition record_bytes :: "openssl \<Rightarrow> host \<Rightarrow> Block \<Rightarrow> bytes" where
  "record_bytes E H block =
     (let payload = serialize_block block;
          check = sha256 E payload;
          h = \<lparr>rec_magic = MAGIC, rec_version = VER, rec_kind = KIND_BLOCK,
               rec_length = word_of_nat (length payload)\<rparr>
      in record_header_bytes H h @ payload @ check)"

definition append_file :: "path \<Rightarrow> bytes \<Rightarrow> fs \<Rightarrow> fs" where
  "append_file p bs fs =
     fs\<lparr>files := (files fs)(p \<mapsto> (case files fs p of None \<Rightarrow> [] | Some old \<Rightarrow> old) @ bs)\<rparr>"

text \<open>
  The stream is checked once, before it is flushed; what the flush and the closing of the stream
  then fail to write is not noticed.
\<close>

definition store_append_block :: "openssl \<Rightarrow> host \<Rightarrow> io \<Rightarrow> BlockStore \<Rightarrow> Block \<Rightarrow> fs \<Rightarrow> (exn + unit) \<times> fs" where
  "store_append_block E H io store block fs =
     (if \<not> ofstream_open io then (Inl (RuntimeError ''BlockStore: open append failed''), fs)
      else
        let bs = record_bytes E H block;
            fs = append_file (log_path store) (take (ofstream_flushed io (length bs)) bs) fs
        in if \<not> ofstream_good io then (Inl (RuntimeError ''BlockStore: write failed''), fs)
           else (Inr (), fs))"

section \<open>Parsing\<close>

definition parse_tx :: "Transaction parser" where
  "parse_tx r =
     bindE (read_u8 r) (\<lambda>(_, r).
     bindE (read_u8 r) (\<lambda>(_, r).
     bindE (read_u32 r) (\<lambda>(_, r).
     bindE (read_u32 r) (\<lambda>(version, r).
     bindE (read_u64 r) (\<lambda>(nonce, r).
     bindE (read_u64 r) (\<lambda>(amount, r).
     bindE (read_bytes r) (\<lambda>(pub, r).
     bindE (read_string r) (\<lambda>(label, r).
     bindE (read_bytes r) (\<lambda>(sig, r).
     Inr (\<lparr>tx_version = ucast version, tx_nonce = nonce, tx_amount = amount, from_pub_pem = pub,
           to_label = label, tx_signature = sig\<rparr>, r))))))))))"

definition parse_transaction :: "bytes \<Rightarrow> exn + Transaction" where
  "parse_transaction bs = bindE (parse_tx (new_reader bs)) (\<lambda>(tx, _). Inr tx)"

definition parse_header :: "BlockHeader parser" where
  "parse_header r =
     bindE (read_u32 r) (\<lambda>(version, r).
     bindE (read_n 32 read_u8 r) (\<lambda>(prev, r).
     bindE (read_n 32 read_u8 r) (\<lambda>(mroot, r).
     bindE (read_u64 r) (\<lambda>(timestamp, r).
     bindE (read_u64 r) (\<lambda>(nonce, r).
     Inr (\<lparr>hdr_version = version, prev_hash = prev, merkle_root = mroot, hdr_timestamp = timestamp,
           hdr_nonce = nonce\<rparr>, r))))))"

definition read_tx :: "Transaction parser" where
  "read_tx r =
     bindE (read_bytes r) (\<lambda>(tx_bytes, r).
     bindE (parse_transaction tx_bytes) (\<lambda>tx. Inr (tx, r)))"

definition parse_block :: "host \<Rightarrow> Block parser" where
  "parse_block H r =
     bindE (parse_header r) (\<lambda>(h, r).
     bindE (read_u32 r) (\<lambda>(num_txs, r).
     bindE (if alloc_txs H (unat num_txs) then Inr () else Inl BadAlloc) (\<lambda>_.
     bindE (read_n (unat num_txs) read_tx r) (\<lambda>(txs, r).
     Inr (\<lparr>header = h, transactions = txs\<rparr>, r)))))"

section \<open>Loading\<close>

record istream =
  in_rest :: bytes
  in_good :: bool

text \<open>
  \<open>in.read (p, n)\<close>: a short read clears the good state, a read from a stream that is not good does
  nothing. The bytes returned by a failed read stand for an uninitialised variable; the code leaves
  the loop before it uses them.
\<close>

definition in_read :: "nat \<Rightarrow> istream \<Rightarrow> bytes \<times> istream" where
  "in_read n s =
     (if \<not> in_good s then ([], s)
      else (take n (in_rest s),
            s\<lparr>in_rest := drop n (in_rest s), in_good := n \<le> length (in_rest s)\<rparr>))"

definition in_read_u64 :: "host \<Rightarrow> istream \<Rightarrow> u64 \<times> istream" where
  "in_read_u64 H s = (let (bs, s) = in_read 8 s in (of_native H bs, s))"

definition in_read_u32 :: "host \<Rightarrow> istream \<Rightarrow> u32 \<times> istream" where
  "in_read_u32 H s = (let (bs, s) = in_read 4 s in (of_native H bs, s))"

definition in_read_u16 :: "host \<Rightarrow> istream \<Rightarrow> u16 \<times> istream" where
  "in_read_u16 H s = (let (bs, s) = in_read 2 s in (of_native H bs, s))"

definition at_eof :: "istream \<Rightarrow> bool" where
  "at_eof s \<longleftrightarrow> \<not> in_good s \<or> in_rest s = []"

text \<open>One pass of the loop: a record and the stream after it, or \<open>None\<close> for \<open>break\<close>.\<close>

definition load_record :: "openssl \<Rightarrow> host \<Rightarrow> istream \<Rightarrow> exn + (Block \<times> istream) option" where
  "load_record E H s =
     (let (magic, s) = in_read_u32 H s in
      if \<not> in_good s then Inr None else
      let (version, s) = in_read_u64 H s;
          (kind, s) = in_read_u16 H s;
          (len, s) = in_read_u64 H s in
      if \<not> in_good s then Inr None else
      if magic \<noteq> MAGIC \<or> version \<noteq> VER \<or> kind \<noteq> KIND_BLOCK then Inr None else
      if \<not> alloc_bytes H (unat len) then Inl BadAlloc else
      let (payload, s) = in_read (unat len) s in
      if \<not> in_good s then Inr None else
      let (check, s) = in_read 32 s in
      if \<not> in_good s then Inr None else
      if sha256 E payload \<noteq> check then Inr None else
      bindE (parse_block H (new_reader payload)) (\<lambda>(block, _). Inr (Some (block, s))))"

lemma in_read_shrinks:
  "in_read n s = (bs, s') \<Longrightarrow> length (in_rest s') \<le> length (in_rest s)"
  by (auto simp: in_read_def split: if_splits)

lemma in_read_good:
  "in_read n s = (bs, s') \<Longrightarrow> in_good s' \<Longrightarrow> in_good s \<and> length (in_rest s') + n = length (in_rest s)"
  by (auto simp: in_read_def split: if_splits)

lemma load_record_shrinks:
  assumes "load_record E H s = Inr (Some (b, s'))"
  shows "length (in_rest s') < length (in_rest s)"
  using assms
  by (auto simp: load_record_def in_read_u32_def in_read_u64_def in_read_u16_def Let_def bindE_eq_Inr
      split: prod.splits if_splits dest!: in_read_good)

function load_loop :: "openssl \<Rightarrow> host \<Rightarrow> istream \<Rightarrow> exn + Block list" where
  "load_loop E H s =
     (if at_eof s then Inr []
      else bindE (load_record E H s) (\<lambda>r. case r of
             None \<Rightarrow> Inr []
           | Some (block, s') \<Rightarrow> bindE (load_loop E H s') (\<lambda>bs. Inr (block # bs))))"
  by pat_completeness auto
termination
  by (relation "measure (\<lambda>(E, H, s). length (in_rest s))") (auto dest: load_record_shrinks)

declare load_loop.simps [simp del]

definition load_all_blocks :: "openssl \<Rightarrow> host \<Rightarrow> io \<Rightarrow> BlockStore \<Rightarrow> fs \<Rightarrow> exn + Block list" where
  "load_all_blocks E H io store fs =
     (case files fs (log_path store) of
        None \<Rightarrow> Inr []
      | Some content \<Rightarrow>
          if \<not> ifstream_open io then Inl (RuntimeError ''BlockStore: open read failed'')
          else load_loop E H \<lparr>in_rest = content, in_good = True\<rparr>)"

section \<open>Parsers stay inside the payload\<close>

lemmas cursor_intros = cursor_parser_bind cursor_parser_return rd_u8.cursor_parser_axioms
  rd_u32.cursor_parser_axioms rd_u64.cursor_parser_axioms rd_bytes.cursor_parser_axioms
  rd_string.cursor_parser_axioms rd_u8.read_n_cursor

interpretation rd_tx: cursor_parser parse_tx
  unfolding parse_tx_def [abs_def] by (intro cursor_intros)

interpretation rd_header: cursor_parser parse_header
  unfolding parse_header_def [abs_def] by (intro cursor_intros)

section \<open>Encodings\<close>

lemma c_u8_many:
  assumes "rest r = bs @ post" and "length bs = n"
  shows "read_n n read_u8 r = Inr (bs, advance (length bs) r)"
  using c_u8.read_n_enc [of bs r post] assms by (simp add: list_all_iff)

interpretation c_tx: codec "serialize_tx False" parse_tx tx_fits
proof
  fix tx r post
  assume rest: "rest r = serialize_tx False tx @ post" and fits: "tx_fits tx"
  from rest have src: "rest r = [0xA1, 0x01] @ le_bytes (1 :: u32) @ le_bytes (ucast (tx_version tx) :: u32) @
      le_bytes (tx_nonce tx) @ le_bytes (tx_amount tx) @ lp_bytes (from_pub_pem tx) @
      lp_bytes (string_bytes (to_label tx)) @ lp_bytes (tx_signature tx) @ post"
    by (simp add: serialize_tx_eq tx_prefix_def)
  show "parse_tx r = Inr (tx, advance (length (serialize_tx False tx)) r)"
    using fits unfolding tx_fits_def
    by (simp add: parse_tx_def c_u8.dec_enc c_u32.dec_enc c_u64.dec_enc c_bytes.dec_enc
        c_string.dec_enc [where x = "to_label tx" and post = "lp_bytes (tx_signature tx) @ post"]
        src length_serialize_tx drop_Cons' add.assoc)
qed

interpretation c_header: codec serialize_header parse_header header_wf
proof
  fix h r post
  assume rest: "rest r = serialize_header h @ post" and wf: "header_wf h"
  then show "parse_header r = Inr (h, advance (length (serialize_header h)) r)"
    by (simp add: parse_header_def serialize_header_eq header_wf_def c_u32.dec_enc c_u64.dec_enc
        c_u8_many [where bs = "prev_hash h" and n = 32]
        c_u8_many [where bs = "merkle_root h" and n = 32])
qed

definition lp_tx_fits :: "Transaction \<Rightarrow> bool" where
  "lp_tx_fits tx \<longleftrightarrow> tx_fits tx \<and> length (serialize_tx False tx) < 2 ^ 32"

interpretation c_lp_tx: codec lp_tx read_tx lp_tx_fits
proof
  fix tx r post
  assume rest: "rest r = lp_tx tx @ post" and fits: "lp_tx_fits tx"
  have "read_bytes r = Inr (serialize_tx False tx, advance (length (lp_tx tx)) r)"
    using c_bytes.dec_enc [of r "serialize_tx False tx" post] rest fits
    by (simp add: lp_tx_def lp_tx_fits_def)
  moreover have "parse_tx (new_reader (serialize_tx False tx)) =
      Inr (tx, advance (length (serialize_tx False tx)) (new_reader (serialize_tx False tx)))"
    using c_tx.dec_enc [of "new_reader (serialize_tx False tx)" tx "[]"] fits
    by (simp add: lp_tx_fits_def)
  ultimately show "read_tx r = Inr (tx, advance (length (lp_tx tx)) r)"
    by (simp add: read_tx_def parse_transaction_def)
qed

text \<open>What the log can hold on a machine: the sizes fit their fields and can be allocated.\<close>

definition storable :: "host \<Rightarrow> Block \<Rightarrow> bool" where
  "storable H b \<longleftrightarrow> block_fits b \<and> length (serialize_block b) < 2 ^ 64 \<and>
     alloc_bytes H (length (serialize_block b)) \<and> alloc_txs H (length (transactions b))"

interpretation c_block: codec serialize_block "parse_block H" "storable H" for H
proof
  fix b r post
  assume rest: "rest r = serialize_block b @ post" and ok: "storable H b"
  let ?txs = "transactions b"
  have wf: "header_wf (header b)" and n: "length ?txs < 2 ^ 32" and alloc: "alloc_txs H (length ?txs)"
    and txs: "list_all lp_tx_fits ?txs"
    using ok by (auto simp: storable_def block_fits_def lp_tx_fits_def list_all_iff)
  let ?r1 = "advance (length (serialize_header (header b))) r"
  let ?r2 = "advance 4 ?r1"
  have r1: "rest ?r1 = u32_prefix (length ?txs) @ concat (map lp_tx ?txs) @ post"
    and r2: "rest ?r2 = concat (map lp_tx ?txs) @ post"
    by (simp_all add: rest serialize_block_eq)
  have "parse_header r = Inr (header b, ?r1)"
    by (rule c_header.dec_enc [OF _ wf]) (simp add: rest serialize_block_eq)
  moreover have "read_u32 ?r1 = Inr (word_of_nat (length ?txs), ?r2)"
    by (simp only: read_u32_eq r1) simp
  moreover have "read_n (length ?txs) read_tx ?r2 = Inr (?txs, advance (length (concat (map lp_tx ?txs))) ?r2)"
    by (rule c_lp_tx.read_n_enc [OF txs r2])
  moreover have "unat (word_of_nat (length ?txs) :: u32) = length ?txs"
    using n by (rule unat_u32_prefix)
  ultimately show "parse_block H r = Inr (b, advance (length (serialize_block b)) r)"
    using alloc by (simp add: parse_block_def serialize_block_eq add.assoc)
qed

section \<open>Well-formedness of what is parsed\<close>

lemma length_lp_tx: "length (lp_tx tx) = 4 + length (serialize_tx False tx)"
  by (simp add: lp_tx_def)

interpretation sz_tx: sized_parser parse_tx tx_fits "\<lambda>tx. length (serialize_tx False tx)"
  by unfold_locales
    (auto simp: parse_tx_def bindE_eq_Inr tx_fits_def length_serialize_tx
      dest!: sz_u8.sized sz_u32.sized sz_u64.sized sz_bytes.sized sz_string.sized)

interpretation sz_header: sized_parser parse_header header_wf "\<lambda>_. 84"
  by unfold_locales
    (auto simp: parse_header_def bindE_eq_Inr header_wf_def sum_list_triv
      dest!: sz_u8.read_n_sized sz_u32.sized sz_u64.sized)

interpretation sz_lp_tx: sized_parser read_tx lp_tx_fits "\<lambda>tx. length (lp_tx tx)"
proof
  fix r x r'
  assume "read_tx r = Inr (x, r')"
  then obtain bs r2 where b: "read_bytes r = Inr (bs, r')" and t: "parse_tx (new_reader bs) = Inr (x, r2)"
    by (auto simp: read_tx_def parse_transaction_def bindE_eq_Inr)
  with sz_bytes.sized [OF b] sz_tx.sized [OF t]
  show "lp_tx_fits x \<and> length (rest r') + length (lp_tx x) \<le> length (rest r)"
    by (simp add: lp_tx_fits_def length_lp_tx)
qed

interpretation sz_block: sized_parser "parse_block H" block_fits "\<lambda>b. length (serialize_block b)" for H
proof
  fix r x r'
  assume "parse_block H r = Inr (x, r')"
  then obtain h r1 n r2 txs where "parse_header r = Inr (h, r1)" "read_u32 r1 = Inr (n, r2)"
    "read_n (unat n) read_tx r2 = Inr (txs, r')" "x = \<lparr>header = h, transactions = txs\<rparr>"
    by (auto simp: parse_block_def bindE_eq_Inr)
  with sz_header.sized sz_u32.sized sz_lp_tx.read_n_sized unat_u32_less [of n]
  show "block_fits x \<and> length (rest r') + length (serialize_block x) \<le> length (rest r)"
    by (fastforce simp: block_fits_def lp_tx_fits_def list_all_iff serialize_block_eq length_concat length_serialize_header o_def)
qed

lemma parse_block_alloc: "parse_block H r = Inr (b, r') \<Longrightarrow> alloc_txs H (length (transactions b))"
  by (auto simp: parse_block_def bindE_eq_Inr split: if_splits dest!: sz_lp_tx.read_n_sized)

text \<open>A block that came out of a record: it could be written again.\<close>

definition loaded_ok :: "host \<Rightarrow> Block \<Rightarrow> bool" where
  "loaded_ok H b \<longleftrightarrow> block_fits b \<and> length (serialize_block b) < 2 ^ 64 \<and> alloc_txs H (length (transactions b))"

lemma load_record_ok:
  assumes "load_record E H s = Inr (Some (b, s'))"
  shows "loaded_ok H b"
proof -
  from assms obtain len s1 payload s2 r where rd: "in_read (unat (len :: u64)) s1 = (payload, s2)" and "in_good s2"
    and b: "parse_block H (new_reader payload) = Inr (b, r)"
    by (auto simp: load_record_def bindE_eq_Inr Let_def split: prod.splits if_splits)
  then have "length payload < 2 ^ 64"
    using unsigned_less [of len] by (auto simp: in_read_def split: if_splits)
  with sz_block.sized [OF b] parse_block_alloc [OF b] show ?thesis by (simp add: loaded_ok_def)
qed

lemma load_loop_ok: "load_loop E H s = Inr bs \<Longrightarrow> list_all (loaded_ok H) bs"
proof (induction E H s arbitrary: bs rule: load_loop.induct)
  case (1 E H s)
  from "1.prems" consider "bs = []"
    | b s' cs where "\<not> at_eof s" "load_record E H s = Inr (Some (b, s'))" "load_loop E H s' = Inr cs" "bs = b # cs"
    by (auto simp: load_loop.simps [of E H s] bindE_eq_Inr split: if_splits option.splits)
  then show ?case
    by cases (use "1.IH" load_record_ok in auto)
qed

section \<open>What a payload denotes\<close>

text \<open>
  The parsers skip a tag and a number at the start of a transaction, keep 16 of the 32 bits of its version, and
  ignore bytes that follow a transaction or a block; everything else is fixed by the bytes.
\<close>

definition denotes_tx :: "bytes \<Rightarrow> Transaction \<Rightarrow> bool" where
  "denotes_tx bs tx \<longleftrightarrow>
     (\<exists>tag sub (form :: u32) (version :: u32).
        bs = [tag, sub] @ le_bytes form @ le_bytes version @ le_bytes (tx_nonce tx) @ le_bytes (tx_amount tx) @
          lp_bytes (from_pub_pem tx) @ lp_bytes (string_bytes (to_label tx)) @ lp_bytes (tx_signature tx) \<and>
        tx_version tx = ucast version)"

definition denotes_lp_tx :: "bytes \<Rightarrow> Transaction \<Rightarrow> bool" where
  "denotes_lp_tx bs tx \<longleftrightarrow> (\<exists>form after. bs = lp_bytes (form @ after) \<and> denotes_tx form tx)"

definition denotes_block :: "bytes \<Rightarrow> Block \<Rightarrow> bool" where
  "denotes_block bs b \<longleftrightarrow>
     (\<exists>forms. bs = serialize_header (header b) @ u32_prefix (length (transactions b)) @ concat forms \<and>
        list_all2 denotes_lp_tx forms (transactions b))"

interpretation fp_tx: faithful_parser parse_tx denotes_tx
proof
  fix r x r'
  assume "parse_tx r = Inr (x, r')"
  then obtain tag r1 sub r2 form r3 version r4 nonce r5 amount r6 pub r7 label r8 sig
    where "read_u8 r = Inr (tag, r1)" "read_u8 r1 = Inr (sub, r2)" "read_u32 r2 = Inr (form, r3)"
      "read_u32 r3 = Inr (version, r4)" "read_u64 r4 = Inr (nonce, r5)" "read_u64 r5 = Inr (amount, r6)"
      "read_bytes r6 = Inr (pub, r7)" "read_string r7 = Inr (label, r8)" "read_bytes r8 = Inr (sig, r')"
      and x: "x = \<lparr>tx_version = ucast version, tx_nonce = nonce, tx_amount = amount, from_pub_pem = pub,
        to_label = label, tx_signature = sig\<rparr>"
    by (auto simp: parse_tx_def bindE_eq_Inr)
  then have "rest r = ([tag, sub] @ le_bytes form @ le_bytes version @ le_bytes nonce @ le_bytes amount @
      lp_bytes pub @ lp_bytes (string_bytes label) @ lp_bytes sig) @ rest r'"
    by (auto dest!: fp_u8.faithful fp_u32.faithful fp_u64.faithful fp_bytes.faithful fp_string.faithful)
  then show "\<exists>bs. rest r = bs @ rest r' \<and> denotes_tx bs x"
    unfolding denotes_tx_def x by fastforce
qed

interpretation fp_header: faithful_parser parse_header "\<lambda>bs h. bs = serialize_header h \<and> header_wf h"
proof
  fix r x r'
  assume p: "parse_header r = Inr (x, r')"
  then obtain version r1 prev r2 mroot r3 timestamp r4 nonce
    where rd: "read_u32 r = Inr (version, r1)" "read_n 32 read_u8 r1 = Inr (prev, r2)"
      "read_n 32 read_u8 r2 = Inr (mroot, r3)" "read_u64 r3 = Inr (timestamp, r4)" "read_u64 r4 = Inr (nonce, r')"
      and x: "x = \<lparr>hdr_version = version, prev_hash = prev, merkle_root = mroot, hdr_timestamp = timestamp, hdr_nonce = nonce\<rparr>"
    by (auto simp: parse_header_def bindE_eq_Inr)
  have bytes: "rest q = xs @ rest q'" if "read_n 32 read_u8 q = Inr (xs, q')" for q xs q'
  proof -
    obtain bss where "rest q = concat bss @ rest q'" "list_all2 (\<lambda>bs x. bs = [x]) bss xs"
      using fp_u8.read_n_faithful [OF \<open>read_n 32 read_u8 q = Inr (xs, q')\<close>] by blast
    moreover from this(2) have "concat bss = xs" by (induction rule: list_all2_induct) auto
    ultimately show ?thesis by simp
  qed
  have "rest r = serialize_header x @ rest r'"
    using rd fp_u32.faithful [OF rd(1)] fp_u64.faithful [OF rd(4)] fp_u64.faithful [OF rd(5)] bytes [OF rd(2)] bytes [OF rd(3)]
    by (auto simp: x serialize_header_eq)
  with sz_header.sized [OF p] show "\<exists>bs. rest r = bs @ rest r' \<and> bs = serialize_header x \<and> header_wf x" by blast
qed

interpretation fp_lp_tx: faithful_parser read_tx denotes_lp_tx
proof
  fix r x r'
  assume "read_tx r = Inr (x, r')"
  then obtain bs r2 where b: "read_bytes r = Inr (bs, r')" and t: "parse_tx (new_reader bs) = Inr (x, r2)"
    by (auto simp: read_tx_def parse_transaction_def bindE_eq_Inr)
  with fp_bytes.faithful [OF b] fp_tx.faithful [OF t]
  show "\<exists>bs. rest r = bs @ rest r' \<and> denotes_lp_tx bs x" by (auto simp: denotes_lp_tx_def)
qed

interpretation fp_block: faithful_parser "parse_block H" denotes_block for H
proof
  fix r x r'
  assume "parse_block H r = Inr (x, r')"
  then obtain h r1 n r2 txs where p: "parse_header r = Inr (h, r1)" "read_u32 r1 = Inr (n, r2)"
    "read_n (unat n) read_tx r2 = Inr (txs, r')" and x: "x = \<lparr>header = h, transactions = txs\<rparr>"
    by (auto simp: parse_block_def bindE_eq_Inr)
  from fp_lp_tx.read_n_faithful [OF p(3)] obtain forms where
    forms: "rest r2 = concat forms @ rest r'" "list_all2 denotes_lp_tx forms txs" and n: "length txs = unat n" by blast
  have "rest r = (serialize_header h @ le_bytes n @ concat forms) @ rest r'"
    using fp_header.faithful [OF p(1)] fp_u32.faithful [OF p(2)] forms(1) by auto
  moreover have "le_bytes n = u32_prefix (length txs)" by (simp add: u32_prefix_def n)
  ultimately show "\<exists>bs. rest r = bs @ rest r' \<and> denotes_block bs x"
    using forms(2) unfolding denotes_block_def x by fastforce
qed

section \<open>Records of the log\<close>

lemma length_native_bytes [simp, size_simps]: "length (native_bytes H v) = sizeof v"
  by (simp add: native_bytes_def)

lemma of_native_native_bytes [simp]:
  "of_native H (native_bytes H (x :: u16)) = x" "of_native H (native_bytes H (y :: u32)) = y"
  "of_native H (native_bytes H (z :: u64)) = z"
  by (simp_all add: of_native_def native_bytes_def)

lemma native_bytes_of_native:
  assumes "LENGTH('a::len) = 8 * length bs"
  shows "native_bytes H (of_native H bs :: 'a word) = bs"
  using le_bytes_of_le_bytes [where 'a = 'a, of bs] le_bytes_of_le_bytes [where 'a = 'a, of "rev bs"] assms
  by (simp add: native_bytes_def of_native_def)

definition frame :: "openssl \<Rightarrow> host \<Rightarrow> bytes \<Rightarrow> bytes \<Rightarrow> bytes" where
  "frame E H payload check =
     native_bytes H MAGIC @ native_bytes H VER @ native_bytes H KIND_BLOCK @
     native_bytes H (word_of_nat (length payload) :: u64) @ payload @ check"

lemma record_bytes_frame:
  "record_bytes E H b = frame E H (serialize_block b) (sha256 E (serialize_block b))"
  by (simp add: record_bytes_def record_header_bytes_def frame_def Let_def)

lemma length_frame [simp]: "length (frame E H payload check) = 22 + length payload + length check"
  by (simp add: frame_def)

lemma frame_not_Nil [simp]: "frame E H payload check \<noteq> []"
  by (metis length_frame list.size(3) add_is_0 zero_neq_numeral)

text \<open>The reads of one pass over a stream that holds a whole frame.\<close>

lemma load_record_frame:
  assumes "length payload < 2 ^ 64" and "length check = 32" and "alloc_bytes H (length payload)"
  shows "load_record E H \<lparr>in_rest = frame E H payload check @ post, in_good = True\<rparr> =
    (if sha256 E payload \<noteq> check then Inr None
     else bindE (parse_block H (new_reader payload))
            (\<lambda>(block, _). Inr (Some (block, \<lparr>in_rest = post, in_good = True\<rparr>))))"
  using assms
  by (simp add: load_record_def in_read_u32_def in_read_u64_def in_read_u16_def in_read_def frame_def
      unat_u64_of_nat Let_def)

text \<open>A stream that ends before the frame does.\<close>

lemma take_frame:
  assumes "22 \<le> k" and "k < length (frame E H payload check)"
  shows "take k (frame E H payload check) =
    native_bytes H MAGIC @ native_bytes H VER @ native_bytes H KIND_BLOCK @
    native_bytes H (word_of_nat (length payload) :: u64) @ take (k - 22) (payload @ check)"
  using assms by (simp add: frame_def)

lemma load_record_torn:
  assumes "length payload < 2 ^ 64" and "length check = 32" and "alloc_bytes H (length payload)"
    and "k < length (frame E H payload check)"
  shows "load_record E H \<lparr>in_rest = take k (frame E H payload check), in_good = True\<rparr> = Inr None"
proof (cases "22 \<le> k")
  case False
  then have "length (take k (frame E H payload check)) < 22" by simp
  then show ?thesis
    by (auto simp: load_record_def in_read_u32_def in_read_u64_def in_read_u16_def in_read_def Let_def)
next
  case True
  let ?tail = "take (k - 22) (payload @ check)"
  have short: "length ?tail < length payload + 32"
    using assms(2,4) True by simp
  show ?thesis
    unfolding take_frame [OF True assms(4)]
    using assms(1-3) short
    by (auto simp: load_record_def in_read_u32_def in_read_u64_def in_read_u16_def in_read_def
        unat_u64_of_nat Let_def)
qed

text \<open>And the other way round: a pass that returns a block has found a frame.\<close>

definition recorded :: "host \<Rightarrow> bytes \<Rightarrow> Block \<Rightarrow> bool" where
  "recorded H payload b \<longleftrightarrow> length payload < 2 ^ 64 \<and> alloc_bytes H (length payload) \<and>
     (\<exists>form after. payload = form @ after \<and> denotes_block form b)"

lemma in_read_taken:
  "in_read n s = (bs, s') \<Longrightarrow> in_good s' \<Longrightarrow> in_rest s = bs @ in_rest s' \<and> length bs = n \<and> in_good s"
  by (auto simp: in_read_def split: if_splits)

lemma load_record_recorded:
  assumes "load_record E H s = Inr (Some (b, s'))"
  shows "\<exists>payload. in_rest s = frame E H payload (sha256 E payload) @ in_rest s' \<and> recorded H payload b"
proof -
  from assms obtain m s1 v s2 k s3 n s4 payload s5 check r where
    rd: "in_read 4 s = (m, s1)" "in_read 8 s1 = (v, s2)" "in_read 2 s2 = (k, s3)" "in_read 8 s3 = (n, s4)"
      "in_read (unat (of_native H n :: u64)) s4 = (payload, s5)" "in_read 32 s5 = (check, s')" and good: "in_good s'"
    and hd: "of_native H m = MAGIC" "of_native H v = VER" "of_native H k = KIND_BLOCK"
    and alloc: "alloc_bytes H (unat (of_native H n :: u64))" and check: "sha256 E payload = check"
    and b: "parse_block H (new_reader payload) = Inr (b, r)"
    by (auto simp: load_record_def in_read_u32_def in_read_u64_def in_read_u16_def Let_def bindE_eq_Inr
        split: prod.splits if_splits)
  note taken = in_read_taken [OF rd(1)] in_read_taken [OF rd(2)] in_read_taken [OF rd(3)] in_read_taken [OF rd(4)]
    in_read_taken [OF rd(5)] in_read_taken [OF rd(6) good]
  then have len: "length m = 4" "length v = 8" "length k = 2" "length n = 8"
    and payload: "length payload = unat (of_native H n :: u64)"
    and whole: "in_rest s = m @ v @ k @ n @ payload @ check @ in_rest s'" by auto
  have "m = native_bytes H MAGIC" "v = native_bytes H VER" "k = native_bytes H KIND_BLOCK"
    "n = native_bytes H (word_of_nat (length payload) :: u64)"
    using native_bytes_of_native [where 'a = 32, of m H] native_bytes_of_native [where 'a = 64, of v H]
      native_bytes_of_native [where 'a = 16, of k H] native_bytes_of_native [where 'a = 64, of n H] len hd
    by (simp_all add: payload)
  with whole check have "in_rest s = frame E H payload (sha256 E payload) @ in_rest s'" by (simp add: frame_def)
  moreover have "recorded H payload b"
    using fp_block.faithful [OF b] alloc unsigned_less [of "of_native H n :: u64"]
    by (auto simp: recorded_def payload)
  ultimately show ?thesis by blast
qed

section \<open>Whole logs\<close>

definition log_of :: "openssl \<Rightarrow> host \<Rightarrow> Block list \<Rightarrow> bytes" where
  "log_of E H bs = concat (map (record_bytes E H) bs)"

lemma log_of_simps [simp]:
  "log_of E H [] = []"
  "log_of E H (b # bs) = record_bytes E H b @ log_of E H bs"
  "log_of E H (as @ bs) = log_of E H as @ log_of E H bs"
  by (simp_all add: log_of_def)

abbreviation stream :: "bytes \<Rightarrow> istream" where
  "stream bs \<equiv> \<lparr>in_rest = bs, in_good = True\<rparr>"

lemma load_loop_simps:
  "load_loop E H (stream []) = Inr []"
  "bs \<noteq> [] \<Longrightarrow> load_loop E H (stream bs) =
     bindE (load_record E H (stream bs)) (\<lambda>r. case r of None \<Rightarrow> Inr []
       | Some (block, s) \<Rightarrow> bindE (load_loop E H s) (\<lambda>bs. Inr (block # bs)))"
  by (simp_all add: load_loop.simps [of E H "stream bs" for bs] at_eof_def)

text \<open>What the loop returns, from the bytes alone: the frames up to the first place where there is none.\<close>

lemma load_loop_recorded:
  "load_loop E H s = Inr bs \<Longrightarrow> in_good s \<Longrightarrow>
     \<exists>payloads tail. in_rest s = concat (map (\<lambda>p. frame E H p (sha256 E p)) payloads) @ tail \<and>
       list_all2 (recorded H) payloads bs \<and> (tail = [] \<or> load_record E H (stream tail) = Inr None)"
proof (induction E H s arbitrary: bs rule: load_loop.induct)
  case (1 E H s)
  have s: "s = stream (in_rest s)" using "1.prems"(2) by (cases s) simp
  from "1.prems"(1) consider "at_eof s" "bs = []" | "\<not> at_eof s" "load_record E H s = Inr None" "bs = []"
    | b s' cs where "\<not> at_eof s" "load_record E H s = Inr (Some (b, s'))" "load_loop E H s' = Inr cs" "bs = b # cs"
    by (auto simp: load_loop.simps [of E H s] bindE_eq_Inr split: if_splits option.splits)
      (metis not_None_eq surj_pair)
  then show ?case
  proof cases
    case 1
    with "1.prems"(2) show ?thesis by (intro exI [of _ "[]"]) (simp add: at_eof_def)
  next
    case 2
    with s show ?thesis by (intro exI [of _ "[]"] exI [of _ "in_rest s"]) simp
  next
    case (3 b s' cs)
    from load_record_recorded [OF 3(2)] obtain p where
      p: "in_rest s = frame E H p (sha256 E p) @ in_rest s'" "recorded H p b" by blast
    have "in_good s'" using 3(2) by (auto simp: load_record_def bindE_eq_Inr Let_def split: prod.splits if_splits)
    with "1.IH" [OF 3(1)] 3(2,3) obtain ps tail where
      "in_rest s' = concat (map (\<lambda>p. frame E H p (sha256 E p)) ps) @ tail" "list_all2 (recorded H) ps cs"
      "tail = [] \<or> load_record E H (stream tail) = Inr None" by blast
    with p 3(4) show ?thesis by (intro exI [of _ "p # ps"] exI [of _ tail]) simp
  qed
qed

lemma load_loop_record:
  assumes "storable H b"
  shows "load_loop E H (stream (record_bytes E H b @ post)) =
    bindE (load_loop E H (stream post)) (\<lambda>bs. Inr (b # bs))"
proof -
  have "parse_block H (new_reader (serialize_block b)) =
      Inr (b, advance (length (serialize_block b)) (new_reader (serialize_block b)))"
    using c_block.dec_enc [of "new_reader (serialize_block b)" b "[]"] assms by simp
  then have "load_record E H (stream (record_bytes E H b @ post)) = Inr (Some (b, stream post))"
    using assms by (simp add: record_bytes_frame load_record_frame storable_def)
  then show ?thesis
    by (subst load_loop_simps(2)) (simp_all add: record_bytes_frame)
qed

lemma load_loop_log:
  assumes "list_all (storable H) bs"
  shows "load_loop E H (stream (log_of E H bs @ tail)) =
    bindE (load_loop E H (stream tail)) (\<lambda>cs. Inr (bs @ cs))"
  using assms
proof (induction bs)
  case Nil
  show ?case by (cases "load_loop E H (stream tail)") simp_all
next
  case (Cons b bs)
  then show ?case
    by (cases "load_loop E H (stream tail)") (simp_all add: load_loop_record)
qed

lemma load_loop_stop:
  assumes "tail = [] \<or> load_record E H (stream tail) = Inr None"
  shows "load_loop E H (stream tail) = Inr []"
  using assms by (cases "tail = []") (auto simp: load_loop_simps)

lemma load_loop_log_stop:
  assumes "list_all (storable H) bs" and "tail = [] \<or> load_record E H (stream tail) = Inr None"
  shows "load_loop E H (stream (log_of E H bs @ tail)) = Inr bs"
  by (simp add: load_loop_log [OF assms(1)] load_loop_stop [OF assms(2)])

section \<open>The interface of a block log\<close>

text \<open>
  What a client of the store relies on: a log that is in order stays in order when a block is put,
  and getting the blocks back returns them in the order they were put.
\<close>

locale block_log =
  fixes put :: "'blk \<Rightarrow> 'log \<Rightarrow> 'log" and get :: "'log \<Rightarrow> exn + 'blk list"
    and ok :: "'blk \<Rightarrow> bool" and holds :: "'log \<Rightarrow> 'blk list \<Rightarrow> bool"
  assumes holds_put: "holds l bs \<Longrightarrow> ok b \<Longrightarrow> holds (put b l) (bs @ [b])"
    and get_holds: "holds l bs \<Longrightarrow> get l = Inr bs"
begin

lemma holds_fold: "holds l as \<Longrightarrow> list_all ok bs \<Longrightarrow> holds (fold put bs l) (as @ bs)"
proof (induction bs arbitrary: l as)
  case Nil
  then show ?case by simp
next
  case (Cons b bs)
  then have "holds (put b l) (as @ [b])" by (simp add: holds_put)
  from Cons.IH [OF this] Cons.prems show ?case by simp
qed

lemma get_fold: "holds l as \<Longrightarrow> list_all ok bs \<Longrightarrow> get (fold put bs l) = Inr (as @ bs)"
  by (intro get_holds holds_fold)

end

text \<open>File operations that all succeed.\<close>

definition reliable_io :: io where
  "reliable_io = \<lparr>create_directories_ok = True, open_fd = 3, ofstream_open = True, ofstream_good = True,
     ofstream_flushed = (\<lambda>n. n), ifstream_open = True\<rparr>"

definition store_put :: "openssl \<Rightarrow> host \<Rightarrow> io \<Rightarrow> BlockStore \<Rightarrow> Block \<Rightarrow> fs \<Rightarrow> fs" where
  "store_put E H io store b fs = snd (store_append_block E H io store b fs)"

definition log_holds :: "openssl \<Rightarrow> host \<Rightarrow> BlockStore \<Rightarrow> fs \<Rightarrow> Block list \<Rightarrow> bool" where
  "log_holds E H store fs bs \<longleftrightarrow> list_all (storable H) bs \<and> files fs (log_path store) = Some (log_of E H bs)"

lemma store_put_file:
  "files (store_put E H io store b fs) (log_path store) =
     (if ofstream_open io
      then Some ((case files fs (log_path store) of None \<Rightarrow> [] | Some old \<Rightarrow> old) @
             take (ofstream_flushed io (length (record_bytes E H b))) (record_bytes E H b))
      else files fs (log_path store))"
  by (simp add: store_put_def store_append_block_def append_file_def Let_def)

lemma load_all_blocks_log:
  assumes "files fs (log_path store) = Some content" and "ifstream_open io"
  shows "load_all_blocks E H io store fs = load_loop E H (stream content)"
  using assms by (simp add: load_all_blocks_def)

interpretation file_log: block_log "store_put E H reliable_io store" "load_all_blocks E H reliable_io store"
  "storable H" "log_holds E H store" for E H store
proof
  fix fs bs b
  assume "log_holds E H store fs bs" and "storable H b"
  then show "log_holds E H store (store_put E H reliable_io store b fs) (bs @ [b])"
    by (simp add: log_holds_def store_put_file reliable_io_def)
next
  fix fs bs
  assume "log_holds E H store fs bs"
  then show "load_all_blocks E H reliable_io store fs = Inr bs"
    using load_loop_log_stop [of H bs "[]" E]
    by (simp add: log_holds_def load_all_blocks_log reliable_io_def)
qed

section \<open>Damaged logs\<close>

lemma native_MAGIC_inject:
  assumes "of_native H bs = MAGIC" and "length bs = 4"
  shows "bs = native_bytes H MAGIC"
  using native_bytes_of_native [where 'a = 32, of bs H] assms by simp

lemma le_bytes_MAGIC: "le_bytes MAGIC = [0x52, 0x54, 0x53, 0x41]"
  by (simp add: le_bytes_def MAGIC_def upt_conv_Cons)

text \<open>No proper shift of the magic number over itself reads as the magic number.\<close>

lemma shifted_MAGIC:
  assumes "0 < k" and "k < 4"
  shows "take k (native_bytes H MAGIC) @ take (4 - k) (native_bytes H MAGIC) \<noteq> native_bytes H MAGIC"
proof -
  from assms have "k = 1 \<or> k = 2 \<or> k = 3" by linarith
  then show ?thesis
    by (auto simp: native_bytes_def le_bytes_MAGIC)
qed

lemma load_record_shifted:
  assumes "0 < k" and "k < 4"
  shows "load_record E H (stream (take k (native_bytes H MAGIC) @ log_of E H cs)) = Inr None"
proof (cases cs)
  case Nil
  with assms show ?thesis
    by (simp add: load_record_def in_read_u32_def in_read_def Let_def)
next
  case (Cons c cs')
  let ?m = "native_bytes H MAGIC"
  let ?s = "take k ?m @ log_of E H cs"
  have "take 4 ?s = take k ?m @ take (4 - k) ?m" and "4 \<le> length ?s"
    using assms by (simp_all add: Cons record_bytes_frame frame_def)
  moreover have "of_native H (take k ?m @ take (4 - k) ?m) \<noteq> MAGIC"
    using native_MAGIC_inject [of H "take k ?m @ take (4 - k) ?m"] shifted_MAGIC [OF assms, of H] assms
    by auto
  ultimately show ?thesis
    by (simp add: load_record_def in_read_u32_def in_read_u64_def in_read_u16_def in_read_def Let_def
        split: prod.split)
qed

lemma load_record_unallocatable:
  assumes "\<not> alloc_bytes H (unat len)"
  shows "load_record E H (stream (native_bytes H MAGIC @ native_bytes H VER @ native_bytes H KIND_BLOCK @
    native_bytes H (len :: u64) @ post)) = Inl BadAlloc"
  using assms
  by (simp add: load_record_def in_read_u32_def in_read_u64_def in_read_u16_def in_read_def Let_def)

lemma load_torn_append:
  assumes "log_holds E H store fs bs" and "storable H b" and "ofstream_open io"
    and "ofstream_flushed io (length (record_bytes E H b)) < length (record_bytes E H b)"
  shows "load_all_blocks E H reliable_io store (store_put E H io store b fs) = Inr bs"
proof -
  let ?n = "ofstream_flushed io (length (record_bytes E H b))"
  have content: "files (store_put E H io store b fs) (log_path store) =
      Some (log_of E H bs @ take ?n (record_bytes E H b))"
    using assms(1,3) by (simp add: store_put_file log_holds_def)
  have "load_record E H (stream (take ?n (record_bytes E H b))) = Inr None"
    using load_record_torn [of "serialize_block b" "sha256 E (serialize_block b)" H ?n E] assms(2,4)
    by (simp add: record_bytes_frame storable_def)
  then have "load_loop E H (stream (log_of E H bs @ take ?n (record_bytes E H b))) = Inr bs"
    using assms(1) by (intro load_loop_log_stop) (simp_all add: log_holds_def)
  then show ?thesis
    using load_all_blocks_log [OF content, of reliable_io E H] by (simp add: reliable_io_def)
qed

text \<open>Appending several blocks, with what each append reports.\<close>

fun store_append_all :: "openssl \<Rightarrow> host \<Rightarrow> io \<Rightarrow> BlockStore \<Rightarrow> Block list \<Rightarrow> fs \<Rightarrow> (exn + unit) list \<times> fs" where
  "store_append_all E H io store [] fs = ([], fs)"
| "store_append_all E H io store (b # bs) fs =
     (let (r, fs) = store_append_block E H io store b fs; (rs, fs) = store_append_all E H io store bs fs
      in (r # rs, fs))"

lemma store_append_all_reliable:
  assumes "store_append_all E H reliable_io store bs fs = (rs, fs')" and "files fs (log_path store) = Some old"
  shows "rs = map (\<lambda>_. Inr ()) bs \<and> files fs' (log_path store) = Some (old @ log_of E H bs)"
  using assms
proof (induction bs arbitrary: fs rs old)
  case (Cons b bs)
  let ?fs = "snd (store_append_block E H reliable_io store b fs)"
  obtain rs2 where "store_append_all E H reliable_io store bs ?fs = (rs2, fs')" "rs = Inr () # rs2"
    using Cons.prems(1) by (auto simp: store_append_block_def reliable_io_def Let_def split: prod.splits)
  moreover have "files ?fs (log_path store) = Some (old @ record_bytes E H b)"
    using Cons.prems(2) by (simp add: store_append_block_def append_file_def reliable_io_def Let_def)
  ultimately show ?case using Cons.IH by fastforce
qed simp

section \<open>A concrete log\<close>

definition sample_host :: host where
  "sample_host = \<lparr>big_endian = False, alloc_bytes = (\<lambda>n. n < 2 ^ 30), alloc_txs = (\<lambda>n. n < 2 ^ 20)\<rparr>"

definition sample_store :: BlockStore where
  "sample_store = \<lparr>root_path = ''data'', log_path = ''data/chain.log'', log_fd = 3\<rparr>"

definition sample_fs :: fs where
  "sample_fs = \<lparr>dirs = (\<lambda>_. False), files = Map.empty\<rparr>"

definition sample_fs_open :: fs where
  "sample_fs_open = \<lparr>dirs = (\<lambda>d. d = ''data''), files = [''data/chain.log'' \<mapsto> []]\<rparr>"

definition sample_block :: Block where
  "sample_block = make_genesis_block sample_openssl ''g'' 1700000000"

text \<open>An append of which only three bytes reach the file, noticed or not.\<close>

definition torn_io :: "bool \<Rightarrow> io" where
  "torn_io good = reliable_io\<lparr>ofstream_good := good, ofstream_flushed := (\<lambda>n. min 3 n)\<rparr>"

lemma sample_block_storable: "storable sample_host sample_block"
  by (simp add: storable_def block_fits_def header_wf_def sample_block_def make_genesis_block_def Let_def
      serialize_block_eq length_serialize_header length_lp_tx length_serialize_tx tx_fits_def sample_host_def)

lemma sample_log_holds: "log_holds E H sample_store sample_fs_open []"
  by (simp add: log_holds_def sample_store_def sample_fs_open_def)

lemma sample_new_store:
  "new_BlockStore reliable_io ''data'' sample_fs = (Inr sample_store, sample_fs_open)"
  by (simp add: new_BlockStore_def open_write_log_def reliable_io_def sample_store_def sample_fs_def
      sample_fs_open_def path_join_def Let_def fun_eq_iff)

section \<open>Properties\<close>

text \<open>C7: blocks appended one by one to a freshly opened store are loaded back unchanged and in
  order, on a machine of either byte order, when the file operations succeed and the blocks are of sizes that
  their length fields and the machine's memory can hold (\<open>storable\<close>).\<close>

theorem store_round_trip:
  assumes "new_BlockStore reliable_io dir fs = (Inr store, fs')"
    and "files fs (path_join dir ''chain.log'') = None"
    and "list_all (storable H) bs"
  shows "load_all_blocks E H reliable_io store (fold (store_put E H reliable_io store) bs fs') = Inr bs"
proof -
  from assms(1,2) have "log_holds E H store fs' []"
    by (auto simp: new_BlockStore_def open_write_log_def log_holds_def reliable_io_def Let_def
        split: if_splits option.splits)
  from file_log.get_fold [OF this assms(3)] show ?thesis by simp
qed

theorem store_round_trip_witness:
  "load_all_blocks sample_openssl sample_host reliable_io sample_store
     (fold (store_put sample_openssl sample_host reliable_io sample_store) [sample_block, sample_block]
        sample_fs_open) = Inr [sample_block, sample_block]"
  using store_round_trip [OF sample_new_store, of sample_host "[sample_block, sample_block]" sample_openssl]
    sample_block_storable by (simp add: sample_fs_def)

text \<open>\<open>parse_transaction\<close> inverts \<open>Transaction::serialize\<close>: from the full form every field comes
  back, from the signing form every field with an empty signature; bytes after the transaction are
  ignored.\<close>

theorem parse_transaction_serialize:
  assumes "tx_fits tx"
  shows "parse_transaction (serialize_tx False tx @ post) = Inr tx \<and>
    parse_transaction (serialize_tx True tx @ post) = Inr (tx\<lparr>tx_signature := []\<rparr>)"
proof
  have parse: "parse_transaction (serialize_tx False t @ post) = Inr t" if "tx_fits t" for t
    using c_tx.dec_enc [of "new_reader (serialize_tx False t @ post)" t post] that
    by (simp add: parse_transaction_def)
  show "parse_transaction (serialize_tx False tx @ post) = Inr tx" using assms by (rule parse)
  have "serialize_tx True tx = serialize_tx False (tx\<lparr>tx_signature := []\<rparr>)"
    by (simp add: serialize_tx_eq)
  moreover have "tx_fits (tx\<lparr>tx_signature := []\<rparr>)" using assms by (simp add: tx_fits_def)
  ultimately show "parse_transaction (serialize_tx True tx @ post) = Inr (tx\<lparr>tx_signature := []\<rparr>)"
    using parse by simp
qed

theorem parse_transaction_serialize_witness:
  "parse_transaction (serialize_tx False new_Transaction @ [1, 2]) = Inr new_Transaction"
  using parse_transaction_serialize [of new_Transaction "[1, 2]"]
  by (simp add: tx_fits_def new_Transaction_def)

text \<open>An append of which only a part reaches the file (a crash, a full disk) does not damage
  what was stored before: loading returns exactly the earlier blocks. Whether the append reports
  the failure depends only on the state of the stream before it is flushed.\<close>

theorem torn_append_recovers:
  assumes "log_holds E H store fs bs" and "storable H b" and "ofstream_open io"
    and "ofstream_flushed io (length (record_bytes E H b)) < length (record_bytes E H b)"
  shows "load_all_blocks E H reliable_io store (store_put E H io store b fs) = Inr bs \<and>
    fst (store_append_block E H io store b fs) =
      (if ofstream_good io then Inr () else Inl (RuntimeError ''BlockStore: write failed''))"
  using load_torn_append [OF assms] assms(3) by (simp add: store_append_block_def Let_def)

lemma sample_flushed:
  "ofstream_flushed (torn_io g) (length (record_bytes E H b)) = 3" "ofstream_open (torn_io g)"
  by (simp_all add: torn_io_def reliable_io_def record_bytes_frame)

theorem torn_append_recovers_witness:
  "load_all_blocks sample_openssl sample_host reliable_io sample_store
     (store_put sample_openssl sample_host (torn_io True) sample_store sample_block sample_fs_open) = Inr [] \<and>
   fst (store_append_block sample_openssl sample_host (torn_io True) sample_store sample_block sample_fs_open) =
     (if ofstream_good (torn_io True) then Inr () else Inl (RuntimeError ''BlockStore: write failed''))"
  by (rule torn_append_recovers [OF sample_log_holds sample_block_storable])
    (simp_all only: sample_flushed, simp add: record_bytes_frame)

text \<open>C23: a stored block whose payload was altered in place is not loaded, nor anything after it:
  loading stops with the blocks before it, unless the altered payload has the SHA-256 of the
  original.\<close>

theorem load_detects_corruption:
  assumes "files fs (log_path store) =
      Some (log_of E H bs @ frame E H altered (sha256 E (serialize_block b)) @ after)"
    and "list_all (storable H) bs" and "storable H b"
    and "length altered = length (serialize_block b)" and "altered \<noteq> serialize_block b"
  shows "load_all_blocks E H reliable_io store fs = Inr bs \<or>
    collision (sha256 E) altered (serialize_block b)"
proof (cases "sha256 E altered = sha256 E (serialize_block b)")
  case True
  with assms(5) show ?thesis by (simp add: collision_def)
next
  case False
  then have "load_record E H (stream (frame E H altered (sha256 E (serialize_block b)) @ after)) = Inr None"
    using assms(3,4) by (simp add: load_record_frame storable_def)
  then have "load_loop E H (stream (log_of E H bs @ frame E H altered (sha256 E (serialize_block b)) @ after)) = Inr bs"
    by (intro load_loop_log_stop assms(2)) simp
  then show ?thesis
    using load_all_blocks_log [OF assms(1), of reliable_io E H] by (simp add: reliable_io_def)
qed

definition sample_altered :: bytes where
  "sample_altered = serialize_block (sample_block\<lparr>header := (header sample_block)\<lparr>hdr_nonce := 1\<rparr>\<rparr>)"

theorem load_detects_corruption_witness:
  "load_all_blocks sample_openssl sample_host reliable_io sample_store
     (sample_fs_open\<lparr>files := [''data/chain.log'' \<mapsto>
        record_bytes sample_openssl sample_host sample_block @
        frame sample_openssl sample_host sample_altered (sha256 sample_openssl (serialize_block sample_block))]\<rparr>) =
     Inr [sample_block] \<or>
   collision (sha256 sample_openssl) sample_altered (serialize_block sample_block)"
proof (rule load_detects_corruption [where after = "[]"])
  show "storable sample_host sample_block" by (rule sample_block_storable)
  then show "list_all (storable sample_host) [sample_block]" by simp
  show "length sample_altered = length (serialize_block sample_block)"
    by (simp add: sample_altered_def serialize_block_eq serialize_header_eq)
  show "sample_altered \<noteq> serialize_block sample_block"
    by (simp add: sample_altered_def serialize_block_eq serialize_header_eq sample_block_def
        make_genesis_block_def Let_def)
qed (simp add: sample_store_def)

text \<open>C39: the log is not repaired after a failed append: when one to three bytes of a record have
  reached the file, no block appended afterwards is ever loaded, although each of these appends
  reports success and writes its whole record.\<close>

theorem failed_append_hides_later_blocks:
  assumes "log_holds E H store fs bs" and "ofstream_open io"
    and "0 < ofstream_flushed io (length (record_bytes E H b))"
    and "ofstream_flushed io (length (record_bytes E H b)) < 4"
    and "store_append_all E H reliable_io store cs (snd (store_append_block E H io store b fs)) = (rs, fs')"
  shows "rs = map (\<lambda>_. Inr ()) cs \<and> load_all_blocks E H reliable_io store fs' = Inr bs"
proof -
  let ?k = "ofstream_flushed io (length (record_bytes E H b))"
  have start: "files (store_put E H io store b fs) (log_path store) = Some (log_of E H bs @ take ?k (native_bytes H MAGIC))"
    using assms by (simp add: store_put_file log_holds_def record_bytes_frame frame_def)
  have "rs = map (\<lambda>_. Inr ()) cs" and "files fs' (log_path store) = Some (log_of E H bs @ take ?k (native_bytes H MAGIC) @ log_of E H cs)"
    using store_append_all_reliable [OF assms(5) start [unfolded store_put_def]] by simp_all
  then show ?thesis
    using load_all_blocks_log [of fs' store _ reliable_io E H]
      load_loop_log_stop [of H bs "take ?k (native_bytes H MAGIC) @ log_of E H cs" E]
      load_record_shifted [OF assms(3,4), of E H cs] assms(1)
    by (simp add: log_holds_def reliable_io_def)
qed

theorem failed_append_hides_later_blocks_witness:
  "\<exists>fs'. store_append_all sample_openssl sample_host reliable_io sample_store [sample_block]
       (snd (store_append_block sample_openssl sample_host (torn_io False) sample_store sample_block sample_fs_open)) =
     ([Inr ()], fs') \<and>
   load_all_blocks sample_openssl sample_host reliable_io sample_store fs' = Inr []"
proof -
  obtain rs fs' where run: "store_append_all sample_openssl sample_host reliable_io sample_store [sample_block]
       (snd (store_append_block sample_openssl sample_host (torn_io False) sample_store sample_block sample_fs_open)) = (rs, fs')"
    by fastforce
  from failed_append_hides_later_blocks [OF sample_log_holds _ _ _ run] run show ?thesis by (simp add: sample_flushed)
qed

text \<open>A record header whose length field cannot be allocated makes loading throw, and the blocks
  stored before it are not returned either.\<close>

theorem unallocatable_length_throws:
  assumes "files fs (log_path store) =
      Some (log_of E H bs @ native_bytes H MAGIC @ native_bytes H VER @ native_bytes H KIND_BLOCK @
            native_bytes H (len :: u64) @ after)"
    and "list_all (storable H) bs" and "\<not> alloc_bytes H (unat len)"
  shows "load_all_blocks E H reliable_io store fs = Inl BadAlloc"
proof -
  let ?tail = "native_bytes H MAGIC @ native_bytes H VER @ native_bytes H KIND_BLOCK @ native_bytes H len @ after"
  have "?tail \<noteq> []" by (simp add: native_bytes_def le_bytes_MAGIC)
  then have "load_loop E H (stream ?tail) = Inl BadAlloc"
    by (simp add: load_loop_simps(2) load_record_unallocatable [OF assms(3)])
  then show ?thesis
    using load_all_blocks_log [OF assms(1), of reliable_io E H]
    by (simp add: load_loop_log [OF assms(2)] reliable_io_def)
qed

theorem unallocatable_length_throws_witness:
  "load_all_blocks sample_openssl sample_host reliable_io sample_store
     (sample_fs_open\<lparr>files := [''data/chain.log'' \<mapsto>
        record_bytes sample_openssl sample_host sample_block @
        native_bytes sample_host MAGIC @ native_bytes sample_host VER @ native_bytes sample_host KIND_BLOCK @
        native_bytes sample_host (0xFFFFFFFFFFFFFFFF :: u64)]\<rparr>) = Inl BadAlloc"
  by (rule unallocatable_length_throws [where bs = "[sample_block]" and after = "[]" and len = "0xFFFFFFFFFFFFFFFF"])
    (simp_all add: sample_store_def sample_block_storable, simp add: sample_host_def)

text \<open>C19: whatever bytes the file holds, what \<open>load_all_blocks\<close> returns is what is recorded there: the file
  begins with one intact record per returned block (magic number, version, kind, length, a payload of that
  length that denotes the block field by field, and the SHA-256 of the payload), and after the last of them it
  ends or continues with something that is no intact record. The returned blocks are well-formed: their hashes
  have 32 bytes and all sizes fit their fields.\<close>

theorem loaded_blocks_recorded:
  assumes "load_all_blocks E H io store fs = Inr bs" and "files fs (log_path store) = Some content"
  shows "list_all (loaded_ok H) bs \<and>
    (\<exists>payloads tail. content = concat (map (\<lambda>p. frame E H p (sha256 E p)) payloads) @ tail \<and>
       list_all2 (recorded H) payloads bs \<and> (tail = [] \<or> load_record E H (stream tail) = Inr None))"
proof -
  from assms have "load_loop E H (stream content) = Inr bs" by (auto simp: load_all_blocks_def split: if_splits)
  from load_loop_ok [OF this] load_loop_recorded [OF this] show ?thesis by simp
qed

theorem loaded_blocks_recorded_witness:
  "load_all_blocks sample_openssl sample_host reliable_io sample_store
     (store_put sample_openssl sample_host reliable_io sample_store sample_block sample_fs_open) = Inr [sample_block] \<and>
   (\<exists>payload tail. record_bytes sample_openssl sample_host sample_block =
        frame sample_openssl sample_host payload (sha256 sample_openssl payload) @ tail \<and>
      recorded sample_host payload sample_block)"
proof -
  let ?fs = "store_put sample_openssl sample_host reliable_io sample_store sample_block sample_fs_open"
  have load: "load_all_blocks sample_openssl sample_host reliable_io sample_store ?fs = Inr [sample_block]"
    using file_log.get_fold [OF sample_log_holds, of sample_host "[sample_block]" sample_openssl] sample_block_storable by simp
  have logged: "files ?fs (log_path sample_store) = Some (record_bytes sample_openssl sample_host sample_block)"
    by (simp add: store_put_file reliable_io_def) (simp add: sample_fs_open_def sample_store_def)
  from loaded_blocks_recorded [OF load logged] obtain payloads tail where
    c: "record_bytes sample_openssl sample_host sample_block =
      concat (map (\<lambda>p. frame sample_openssl sample_host p (sha256 sample_openssl p)) payloads) @ tail"
    and "list_all2 (recorded sample_host) payloads [sample_block]" by blast
  then obtain payload where "payloads = [payload]" "recorded sample_host payload sample_block"
    by (auto simp: list_all2_Cons2)
  with c load show ?thesis by auto
qed

end
