(* ===== verification/Astro_Chain_Store.thy ===== *)
theory Astro_Chain_Store
  imports Astro_Chain Astro_Block_Store
begin

text \<open>
  The two operations of \<open>Chain\<close> that use a \<open>BlockStore\<close> (src/core/chain.cpp): \<open>restore_from_store\<close>
  and \<open>append_and_store\<close>, and what a chain and its log say about each other.
\<close>

section \<open>Operations\<close>

fun restore_loop :: "openssl \<Rightarrow> Block list \<Rightarrow> Chain \<Rightarrow> (exn + unit) \<times> Chain" where
  "restore_loop E [] c = (Inr (), c)"
| "restore_loop E (block # stored_blocks) c =
     (case append_block E block c of
        (Inl e, c') \<Rightarrow> (Inl e, c')
      | (Inr validation_result, c') \<Rightarrow>
          if \<not> is_valid validation_result then (Inr (), c') else restore_loop E stored_blocks c')"

definition restore_from_store ::
  "openssl \<Rightarrow> host \<Rightarrow> io \<Rightarrow> BlockStore \<Rightarrow> fs \<Rightarrow> Chain \<Rightarrow> (exn + unit) \<times> Chain" where
  "restore_from_store E H io store fs c =
     (case load_all_blocks E H io store fs of
        Inl e \<Rightarrow> (Inl e, c)
      | Inr stored_blocks \<Rightarrow> restore_loop E stored_blocks c)"

text \<open>\<open>catch (...)\<close> turns every exception of the store into an invalid result without an error code.\<close>

definition append_and_store ::
  "openssl \<Rightarrow> host \<Rightarrow> io \<Rightarrow> BlockStore \<Rightarrow> Block \<Rightarrow> Chain \<times> fs \<Rightarrow> (exn + ValidationResult) \<times> Chain \<times> fs" where
  "append_and_store E H io store block = (\<lambda>(c, fs).
     case validate_block E c block of
       Inl e \<Rightarrow> (Inl e, c, fs)
     | Inr validation_result \<Rightarrow>
         if \<not> is_valid validation_result then (Inr validation_result, c, fs)
         else case store_append_block E H io store block fs of
             (Inl _, fs') \<Rightarrow> (Inr (reject NoError no_index), c, fs')
           | (Inr _, fs') \<Rightarrow> (Inr validation_result, c\<lparr>blocks := blocks c @ [block]\<rparr>, fs'))"

section \<open>A machine that journals its inputs\<close>

text \<open>
  Any machine that accepts or refuses inputs and puts the accepted ones in a log can be rebuilt from
  the log. The chain is such a machine and the file of the store such a log.
\<close>

locale journaled = block_log put get ok holds
  for put :: "'blk \<Rightarrow> 'log \<Rightarrow> 'log" and get and ok and holds +
  fixes step :: "'blk \<Rightarrow> 'st \<Rightarrow> 'st option" and init :: 'st and content :: "'st \<Rightarrow> 'blk list"
  assumes content_init: "content init = []"
    and content_step: "step b s = Some s' \<Longrightarrow> content s' = content s @ [b]"
begin

fun replay :: "'blk list \<Rightarrow> 'st \<Rightarrow> 'st" where
  "replay [] s = s"
| "replay (b # bs) s = (case step b s of None \<Rightarrow> s | Some s' \<Rightarrow> replay bs s')"

definition submit :: "'blk \<Rightarrow> 'st \<times> 'log \<Rightarrow> 'st \<times> 'log" where
  "submit b = (\<lambda>(s, l). case step b s of None \<Rightarrow> (s, l) | Some s' \<Rightarrow> (s', put b l))"

definition replayable :: "'st \<Rightarrow> bool" where
  "replayable s \<longleftrightarrow> replay (content s) init = s"

text \<open>The machine and its log agree.\<close>

definition in_step :: "'st \<times> 'log \<Rightarrow> bool" where
  "in_step = (\<lambda>(s, l). replayable s \<and> holds l (content s))"

lemma replay_append:
  "content (replay bs s) = content s @ bs \<Longrightarrow> replay (bs @ cs) s = replay cs (replay bs s)"
proof (induction bs arbitrary: s)
  case (Cons b bs)
  show ?case
  proof (cases "step b s")
    case None
    with Cons.prems show ?thesis by simp
  next
    case (Some s')
    with Cons.prems content_step [OF Some] show ?thesis by (simp add: Cons.IH)
  qed
qed simp

lemma replayable_init: "replayable init"
  by (simp add: replayable_def content_init)

lemma replayable_step:
  assumes "replayable s" and "step b s = Some s'"
  shows "replayable s'"
  using assms replay_append [of "content s" init "[b]"]
  by (simp add: replayable_def content_step content_init)

lemma in_step_submit: "in_step sl \<Longrightarrow> ok b \<Longrightarrow> in_step (submit b sl)"
  by (cases sl; cases "step b (fst sl)")
    (auto simp: in_step_def submit_def replayable_step content_step holds_put)

lemma in_step_fold: "in_step sl \<Longrightarrow> list_all ok bs \<Longrightarrow> in_step (fold submit bs sl)"
  by (induction bs arbitrary: sl) (simp_all add: in_step_submit)

lemma rebuilt:
  assumes "in_step (s, l)"
  shows "get l = Inr (content s)" and "replay (content s) init = s"
  using assms get_holds by (simp_all add: in_step_def replayable_def)

end

text \<open>The chain as such a machine.\<close>

definition chain_accept :: "openssl \<Rightarrow> Block \<Rightarrow> Chain \<Rightarrow> Chain option" where
  "chain_accept E b c =
     (case append_block E b c of
        (Inr r, c') \<Rightarrow> if is_valid r then Some c' else None
      | (Inl _, _) \<Rightarrow> None)"

lemma chain_accept_Some:
  "chain_accept E b c = Some c' \<longleftrightarrow>
     content_ok E (blocks c) b \<and> pow_ok E (config c) (blocks c) b \<and> c' = c\<lparr>blocks := blocks c @ [b]\<rparr>"
  using validate_block_accepts [of E c b]
  by (auto simp: chain_accept_def append_block_def split: sum.splits if_splits)

interpretation jc: journaled "store_put E H reliable_io store" "load_all_blocks E H reliable_io store"
  "storable H" "log_holds E H store" "chain_accept E" "new_Chain cfg" blocks for E H store cfg
  by unfold_locales (simp_all add: new_Chain_def chain_accept_Some)

section \<open>The operations over this interface\<close>

lemma restore_loop_replay: "snd (restore_loop E bs c) = jc.replay E bs c"
proof (induction bs arbitrary: c)
  case (Cons b bs)
  have "append_block E b c = (Inr r, c') \<Longrightarrow> chain_accept E b c = (if is_valid r then Some c' else None)" for r c'
    by (simp add: chain_accept_def)
  moreover have "append_block E b c = (Inl e, c') \<Longrightarrow> chain_accept E b c = None" for e c'
    by (simp add: chain_accept_def)
  ultimately show ?case
    by (cases rule: append_block_cases [of E b c]) (simp_all add: Cons)
qed simp

lemma reliable_append: "store_append_block E H reliable_io store b fs = (Inr (), store_put E H reliable_io store b fs)"
  by (simp add: store_put_def store_append_block_def reliable_io_def Let_def)

lemma append_and_store_submit:
  "snd (append_and_store E H reliable_io store b (c, fs)) = jc.submit E H store b (c, fs)"
proof -
  have "chain_accept E b c = (case validate_block E c b of Inl _ \<Rightarrow> None
      | Inr r \<Rightarrow> if is_valid r then Some (c\<lparr>blocks := blocks c @ [b]\<rparr>) else None)"
    by (simp add: chain_accept_def append_block_def split: sum.split)
  then show ?thesis
    by (cases "validate_block E c b") (simp_all add: append_and_store_def jc.submit_def reliable_append)
qed

text \<open>Replaying a list keeps its longest acceptable prefix.\<close>

fun stops :: "openssl \<Rightarrow> Chain \<Rightarrow> Block list \<Rightarrow> exn + unit \<Rightarrow> bool" where
  "stops E c [] out \<longleftrightarrow> out = Inr ()"
| "stops E c (b # _) out \<longleftrightarrow>
     (case validate_block E c b of
        Inl e \<Rightarrow> out = Inl e
      | Inr r \<Rightarrow> \<not> is_valid r \<and> out = Inr ())"

lemma restore_loop_prefix:
  "restore_loop E bs c = (out, c') \<Longrightarrow>
     \<exists>pre post. bs = pre @ post \<and> c' = c\<lparr>blocks := blocks c @ pre\<rparr> \<and> stops E c' post out"
proof (induction bs arbitrary: c)
  case (Cons b bs)
  show ?case
  proof (cases rule: append_block_cases [of E b c])
    case (accepted r)
    with Cons.prems have "restore_loop E bs (c\<lparr>blocks := blocks c @ [b]\<rparr>) = (out, c')" by simp
    from Cons.IH [OF this] obtain pre post where "bs = pre @ post"
      and "c' = c\<lparr>blocks := blocks c @ b # pre\<rparr>" and "stops E c' post out" by auto
    then show ?thesis by (intro exI [of _ "b # pre"] exI [of _ post]) simp
  next
    case (rejected r)
    with Cons.prems show ?thesis
      by (intro exI [of _ "[]"] exI [of _ "b # bs"]) (auto simp: append_block_def split: sum.splits if_splits)
  next
    case (thrown e)
    with Cons.prems show ?thesis
      by (intro exI [of _ "[]"] exI [of _ "b # bs"]) (auto simp: append_block_def split: sum.splits if_splits)
  qed
qed simp

lemma restore_loop_all:
  assumes "chain_ok E bs" and "chain_pow E cfg bs"
  shows "restore_loop E bs (new_Chain cfg) = (Inr (), \<lparr>config = cfg, blocks = bs\<rparr>)"
proof -
  obtain out c' where r: "restore_loop E bs (new_Chain cfg) = (out, c')" by fastforce
  from restore_loop_prefix [OF r] obtain pre post where bs: "bs = pre @ post"
    and c': "c' = \<lparr>config = cfg, blocks = pre\<rparr>" and stop: "stops E c' post out"
    by (auto simp: new_Chain_def)
  show ?thesis
  proof (cases post)
    case Nil
    with r bs c' stop show ?thesis by simp
  next
    case (Cons b post')
    with bs assms have "content_ok E pre b" and "pow_ok E cfg pre b"
      by (auto simp: chain_ok_def chain_pow_def dest!: spec [of _ "length pre"])
    with validate_block_accepts [of E c' b] c' obtain r where "validate_block E c' b = Inr r" and "is_valid r"
      by auto
    with stop Cons show ?thesis by simp
  qed
qed

lemma restore_loop_reachable:
  "chain_reachable E c \<Longrightarrow> chain_reachable E (snd (restore_loop E bs c))"
proof (induction bs arbitrary: c)
  case (Cons b bs)
  from Cons.prems have "chain_reachable E (snd (append_block E b c))"
    by (rule chain_reachable.step) (rule chain_step.append)
  with Cons show ?case by (cases rule: append_block_cases [of E b c]) simp_all
qed simp

lemma append_and_store_cases:
  obtains (stored) r fs' where "validate_block E c b = Inr r" and "is_valid r"
      and "store_append_block E H io store b fs = (Inr (), fs')"
      and "append_and_store E H io store b (c, fs) = (Inr r, c\<lparr>blocks := blocks c @ [b]\<rparr>, fs')"
  | (refused) r where "validate_block E c b = Inr r" and "\<not> is_valid r"
      and "append_and_store E H io store b (c, fs) = (Inr r, c, fs)"
  | (failed) r e fs' where "validate_block E c b = Inr r" and "is_valid r"
      and "store_append_block E H io store b fs = (Inl e, fs')"
      and "append_and_store E H io store b (c, fs) = (Inr (reject NoError no_index), c, fs')"
  | (thrown) e where "validate_block E c b = Inl e"
      and "append_and_store E H io store b (c, fs) = (Inl e, c, fs)"
proof (cases "validate_block E c b")
  case (Inl e)
  then show ?thesis by (intro thrown) (simp_all add: append_and_store_def)
next
  case (Inr r)
  obtain q fs' where s: "store_append_block E H io store b fs = (q, fs')" by fastforce
  show ?thesis
  proof (cases "is_valid r")
    case False
    with Inr show ?thesis by (intro refused) (simp_all add: append_and_store_def)
  next
    case True
    show ?thesis
    proof (cases q)
      case (Inl e)
      with True Inr s \<open>validate_block E c b = Inr r\<close> show ?thesis
        by (intro failed [of r e fs']) (simp_all add: append_and_store_def)
    next
      case (Inr u)
      with True s \<open>validate_block E c b = Inr r\<close> show ?thesis
        by (intro stored [of r fs']) (simp_all add: append_and_store_def)
    qed
  qed
qed

lemma restore_loop_chain_pow:
  "chain_pow E (config c) (blocks c) \<Longrightarrow>
     chain_pow E (config c) (blocks (snd (restore_loop E bs c))) \<and> config (snd (restore_loop E bs c)) = config c"
proof (induction bs arbitrary: c)
  case (Cons b bs)
  from append_block_chain_pow [OF Cons.prems, of b] Cons.prems show ?case
    using Cons.IH [of "snd (append_block E b c)"]
    by (cases rule: append_block_cases [of E b c]) simp_all
qed simp

lemma store_append_block_result:
  "store_append_block E H io store b fs = (Inr (), fs') \<longleftrightarrow>
     ofstream_open io \<and> ofstream_good io \<and> fs' = store_put E H io store b fs"
  by (auto simp: store_put_def store_append_block_def Let_def)

lemma restore_from_store_reachable:
  "chain_reachable E c \<Longrightarrow> chain_reachable E (snd (restore_from_store E H io store fs c))"
  using restore_loop_reachable by (simp add: restore_from_store_def split: sum.split)

lemma append_and_store_reachable:
  assumes "chain_reachable E c"
  shows "chain_reachable E (fst (snd (append_and_store E H io store b (c, fs))))"
proof -
  have "chain_reachable E (snd (append_block E b c))"
    using assms by (rule chain_reachable.step) (rule chain_step.append)
  then show ?thesis
    using assms by (cases rule: append_and_store_cases [of E c b H io store fs]) (simp_all add: append_block_def)
qed

lemma append_and_store_valid:
  assumes "content_ok E (blocks c) b" and "pow_ok E (config c) (blocks c) b"
    and "ofstream_open io" and "ofstream_good io"
  shows "append_and_store E H io store b (c, fs) =
    (Inr accept, c\<lparr>blocks := blocks c @ [b]\<rparr>, store_put E H io store b fs)"
proof -
  have "validate_block E c b = Inr accept"
    using append_block_valid [OF assms(1,2)] by (auto simp: append_block_def split: sum.splits if_splits)
  then show ?thesis
    using assms(3,4) store_append_block_result [of E H io store b fs "store_put E H io store b fs"]
    by (simp add: append_and_store_def)
qed

section \<open>Sessions\<close>

text \<open>A session: blocks offered one after another to \<open>append_and_store\<close>, whatever it answers.\<close>

definition session :: "openssl \<Rightarrow> host \<Rightarrow> io \<Rightarrow> BlockStore \<Rightarrow> Block list \<Rightarrow> Chain \<times> fs \<Rightarrow> Chain \<times> fs" where
  "session E H io store bs st = fold (\<lambda>b st. snd (append_and_store E H io store b st)) bs st"

lemma session_in_step:
  assumes "jc.in_step E H store cfg (c, fs)" and "list_all (storable H) bs"
  shows "jc.in_step E H store cfg (session E H reliable_io store bs (c, fs))"
proof -
  have "(\<lambda>b st. snd (append_and_store E H reliable_io store b st)) = jc.submit E H store"
    by (auto simp: fun_eq_iff append_and_store_submit)
  then show ?thesis using jc.in_step_fold [OF assms] by (simp add: session_def)
qed

lemma new_store_in_step:
  assumes "new_BlockStore reliable_io dir fs = (Inr store, fs')"
    and "files fs (path_join dir ''chain.log'') = None"
  shows "jc.in_step E H store cfg (new_Chain cfg, fs')"
proof -
  from assms have "log_holds E H store fs' []"
    by (auto simp: new_BlockStore_def open_write_log_def log_holds_def reliable_io_def Let_def
        split: if_splits option.splits)
  then show ?thesis by (simp add: jc.in_step_def jc.replayable_init) (simp add: new_Chain_def)
qed

lemma restore_replayable:
  assumes "load_all_blocks E H io store fs = Inr (blocks c)" and "jc.replayable E cfg c"
  shows "restore_from_store E H io store fs (new_Chain cfg) = (Inr (), c)"
proof -
  obtain out c' where r: "restore_loop E (blocks c) (new_Chain cfg) = (out, c')" by fastforce
  then have "c' = c" using restore_loop_replay [of E "blocks c" "new_Chain cfg"] assms(2) by (simp add: jc.replayable_def)
  with restore_loop_prefix [OF r] have "out = Inr ()" by (auto simp: new_Chain_def)
  with r assms(1) \<open>c' = c\<close> show ?thesis by (simp add: restore_from_store_def)
qed

text \<open>More blocks behind those of a chain: the chain is rebuilt and possibly extended.\<close>

lemma restore_extended:
  assumes "load_all_blocks E H io store fs = Inr (blocks c @ extra)" and "jc.replayable E cfg c"
  shows "\<exists>out new. restore_from_store E H io store fs (new_Chain cfg) = (out, c\<lparr>blocks := blocks c @ new\<rparr>)"
proof -
  obtain out c' where r: "restore_loop E (blocks c @ extra) (new_Chain cfg) = (out, c')" by fastforce
  have "jc.replay E (blocks c @ extra) (new_Chain cfg) = jc.replay E extra c"
    using jc.replay_append [of E "blocks c" "new_Chain cfg" extra] assms(2) [unfolded jc.replayable_def]
    by (simp add: jc.content_init)
  then have "c' = snd (restore_loop E extra c)" using r restore_loop_replay by (metis snd_conv)
  moreover obtain out2 c2 where "restore_loop E extra c = (out2, c2)" by fastforce
  ultimately show ?thesis
    using restore_loop_prefix [of E extra c out2 c2] r assms(1) by (auto simp: restore_from_store_def)
qed

lemma in_step_restore:
  assumes "jc.in_step E H store cfg (c, fs)"
  shows "restore_from_store E H reliable_io store fs (new_Chain cfg) = (Inr (), c)"
  by (rule restore_replayable [OF jc.rebuilt(1) [OF assms]]) (use assms in \<open>simp add: jc.in_step_def\<close>)

section \<open>The store of the programs\<close>

text \<open>The programs under src/cli all open \<open>./data\<close>.\<close>

definition data_store :: BlockStore where
  "data_store = \<lparr>root_path = ''./data'', log_path = ''./data/chain.log'', log_fd = 3\<rparr>"

lemma reliable_new_store:
  "new_BlockStore reliable_io ''./data'' fs = (Inr store, fs') \<Longrightarrow>
     store = data_store \<and>
     files fs' ''./data/chain.log'' = Some (case files fs ''./data/chain.log'' of None \<Rightarrow> [] | Some old \<Rightarrow> old)"
  by (auto simp: new_BlockStore_def open_write_log_def reliable_io_def path_join_def data_store_def Let_def
      split: if_splits option.splits)

lemma reliable_new_store_ok: "\<exists>fs'. new_BlockStore reliable_io ''./data'' fs = (Inr data_store, fs')"
  by (auto simp: new_BlockStore_def open_write_log_def reliable_io_def path_join_def data_store_def Let_def)

lemma log_path_data_store [simp]: "log_path data_store = ''./data/chain.log''"
  by (simp add: data_store_def)

lemma restore_logged:
  assumes "log_holds E H store fs bs" and "chain_ok E bs"
  shows "restore_from_store E H reliable_io store fs (new_Chain default_config) =
    (Inr (), \<lparr>config = default_config, blocks = bs\<rparr>)"
proof -
  have "chain_pow E default_config bs" by (simp add: chain_pow_def pow_ok_def default_config_def)
  with restore_loop_all [OF assms(2)] file_log.get_holds [OF assms(1)] show ?thesis
    by (simp add: restore_from_store_def)
qed

section \<open>Properties\<close>

text \<open>C3: a chain is recovered from its log when all file operations succeed. After any sequence of blocks
  offered to \<open>append_and_store\<close> over a freshly created store, accepted or not, each of a size that its length
  fields and the machine's memory can hold (\<open>storable\<close>), \<open>restore_from_store\<close> rebuilds in a new chain with the
  same configuration exactly the chain the session ended with.\<close>

theorem session_recovered:
  assumes "new_BlockStore reliable_io dir fs = (Inr store, fs0)"
    and "files fs (path_join dir ''chain.log'') = None"
    and "list_all (storable H) bs"
    and "session E H reliable_io store bs (new_Chain cfg, fs0) = (c, fs1)"
  shows "restore_from_store E H reliable_io store fs1 (new_Chain cfg) = (Inr (), c)"
  using session_in_step [OF new_store_in_step [OF assms(1,2)] assms(3), of E cfg] assms(4)
  by (simp add: in_step_restore)

lemma sample_next_storable: "storable sample_host sample_next"
proof -
  have "length (serialize_tx False sample_signed) = 45" and "tx_fits sample_signed"
    by (simp_all add: length_serialize_tx tx_fits_def sample_signed_def sample_tx_def)
  then show ?thesis
    by (simp add: storable_def block_fits_def header_wf_def sample_next_def build_block_from_transactions_def
        serialize_block_eq length_serialize_header length_lp_tx sample_host_def sample_chain_def Let_def)
qed

lemma sample_genesis_accepted:
  "chain_accept sample_openssl sample_genesis (new_Chain default_config) = Some sample_chain"
  using content_ok_genesis [of sample_openssl "''g''" 1700000000]
  by (simp add: chain_accept_Some new_Chain_def sample_chain_def sample_genesis_def pow_ok_def default_config_def)

definition sample_session :: "Chain \<times> fs" where
  "sample_session = session sample_openssl sample_host reliable_io sample_store
     [sample_genesis, sample_genesis, sample_next] (new_Chain default_config, sample_fs_open)"

theorem session_recovered_witness:
  "restore_from_store sample_openssl sample_host reliable_io sample_store (snd sample_session)
     (new_Chain default_config) = (Inr (), fst sample_session)"
  by (rule session_recovered [OF sample_new_store, of sample_host "[sample_genesis, sample_genesis, sample_next]"])
    (simp_all add: sample_next_storable sample_block_storable [unfolded sample_block_def] sample_genesis_def
      sample_fs_def, simp add: sample_session_def sample_genesis_def)

text \<open>C21: whatever the log holds, \<open>restore_from_store\<close> into a new chain keeps a prefix of the stored
  blocks, up to the first that validation refuses or throws on, and the restored chain satisfies
  the invariant and the configured difficulty; if loading itself throws, the chain stays empty.\<close>

theorem restore_longest_valid_prefix:
  assumes "restore_from_store E H io store fs (new_Chain cfg) = (out, c)"
  shows "chain_ok E (blocks c) \<and> chain_pow E cfg (blocks c) \<and> config c = cfg \<and>
    (case load_all_blocks E H io store fs of
       Inl e \<Rightarrow> out = Inl e \<and> blocks c = []
     | Inr stored \<Rightarrow> \<exists>post. stored = blocks c @ post \<and> stops E c post out)"
proof (cases "load_all_blocks E H io store fs")
  case (Inl e)
  with assms show ?thesis by (auto simp: restore_from_store_def new_Chain_def chain_pow_def)
next
  case (Inr stored)
  with assms have r: "restore_loop E stored (new_Chain cfg) = (out, c)" by (simp add: restore_from_store_def)
  have "chain_pow E cfg (blocks c) \<and> config c = cfg"
    using restore_loop_chain_pow [of E "new_Chain cfg" stored] r by (simp add: new_Chain_def chain_pow_def)
  moreover have "chain_ok E (blocks c)"
    using restore_loop_reachable [OF chain_reachable.start, of E stored cfg] r chain_reachable_ok by fastforce
  moreover have "\<exists>post. stored = blocks c @ post \<and> stops E c post out"
    using restore_loop_prefix [OF r] by (auto simp: new_Chain_def)
  ultimately show ?thesis using Inr by simp
qed

theorem restore_longest_valid_prefix_witness:
  "chain_ok sample_openssl (blocks (fst sample_session)) \<and>
   chain_pow sample_openssl default_config (blocks (fst sample_session))"
proof -
  have "restore_from_store sample_openssl sample_host reliable_io sample_store (snd sample_session)
      (new_Chain default_config) = (Inr (), fst sample_session)"
    by (rule in_step_restore)
      (use session_in_step [OF new_store_in_step [OF sample_new_store],
        where bs = "[sample_genesis, sample_genesis, sample_next]"] in
        \<open>simp add: sample_session_def sample_next_storable sample_block_storable [unfolded sample_block_def]
          sample_genesis_def sample_fs_def\<close>)
  from restore_longest_valid_prefix [OF this] show ?thesis by simp
qed

text \<open>C22: \<open>append_and_store\<close> on every branch: it reports success exactly when the block is valid and
  the store wrote without noticing an error, and exactly then the block is added to the chain; an
  invalid block does not touch the file; a valid block the store failed on is answered with an
  invalid result that carries no error, and the chain is unchanged.\<close>

theorem append_and_store_effect:
  assumes "append_and_store E H io store b (c, fs) = (res, c', fs')"
  shows "((\<exists>r. res = Inr r \<and> is_valid r) \<longleftrightarrow>
      content_ok E (blocks c) b \<and> pow_ok E (config c) (blocks c) b \<and> ofstream_open io \<and> ofstream_good io) \<and>
    c' = (if \<exists>r. res = Inr r \<and> is_valid r then c\<lparr>blocks := blocks c @ [b]\<rparr> else c) \<and>
    fs' = (if content_ok E (blocks c) b \<and> pow_ok E (config c) (blocks c) b
           then store_put E H io store b fs else fs) \<and>
    (content_ok E (blocks c) b \<and> pow_ok E (config c) (blocks c) b \<and> \<not> (ofstream_open io \<and> ofstream_good io) \<longrightarrow>
      res = Inr (reject NoError no_index))"
proof (cases rule: append_and_store_cases [of E c b H io store fs])
  case (stored r fs'')
  with assms validate_block_accepts [of E c b] show ?thesis by (auto simp: store_append_block_result)
next
  case (refused r)
  with assms validate_block_accepts [of E c b] show ?thesis by auto
next
  case (failed r e fs'')
  then have "\<not> (ofstream_open io \<and> ofstream_good io)" and "fs'' = store_put E H io store b fs"
    by (auto simp: store_append_block_def store_put_def Let_def split: if_splits)
  with failed assms validate_block_accepts [of E c b] show ?thesis by (auto simp: reject_def)
next
  case (thrown e)
  with assms validate_block_accepts [of E c b] show ?thesis by auto
qed

lemma sample_content_ok: "content_ok sample_openssl [] sample_genesis" "pow_ok sample_openssl default_config [] sample_genesis"
  by (simp_all add: sample_genesis_def content_ok_genesis pow_ok_def default_config_def)

theorem append_and_store_effect_witness:
  "append_and_store sample_openssl sample_host (torn_io False) sample_store sample_genesis
     (new_Chain default_config, sample_fs_open) =
   (Inr (reject NoError no_index), new_Chain default_config,
    store_put sample_openssl sample_host (torn_io False) sample_store sample_genesis sample_fs_open)"
proof -
  obtain res c' fs' where eq: "append_and_store sample_openssl sample_host (torn_io False) sample_store
      sample_genesis (new_Chain default_config, sample_fs_open) = (res, c', fs')" by (metis prod_cases3)
  have "\<not> ofstream_good (torn_io False)" by (simp add: torn_io_def)
  moreover have "blocks (new_Chain default_config) = []" and "config (new_Chain default_config) = default_config"
    by (simp_all add: new_Chain_def)
  ultimately show ?thesis
    using append_and_store_effect [OF eq] sample_content_ok unfolding eq by (auto simp: reject_def)
qed

text \<open>C38: success does not mean the block is in the file: the store looks at the stream before it is
  flushed, so when a valid, storable block is appended to a chain that satisfies the chain invariant and the
  configured difficulty and whose blocks the log holds, only a part of the record reaches the file and the stream is still good when it is looked at, \<open>append_and_store\<close> reports success
  and extends the chain, and a restart with the same configuration restores the chain without the block.\<close>

theorem unflushed_append_lost:
  assumes "log_holds E H store fs (blocks c)" and "chain_ok E (blocks c)" and "chain_pow E (config c) (blocks c)"
    and "storable H b" and "content_ok E (blocks c) b" and "pow_ok E (config c) (blocks c) b"
    and "ofstream_open io" and "ofstream_good io"
    and "ofstream_flushed io (length (record_bytes E H b)) < length (record_bytes E H b)"
  shows "append_and_store E H io store b (c, fs) =
      (Inr accept, c\<lparr>blocks := blocks c @ [b]\<rparr>, store_put E H io store b fs) \<and>
    restore_from_store E H reliable_io store (store_put E H io store b fs) (new_Chain (config c)) = (Inr (), c)"
proof
  show "append_and_store E H io store b (c, fs) =
      (Inr accept, c\<lparr>blocks := blocks c @ [b]\<rparr>, store_put E H io store b fs)"
    using assms(5-8) by (rule append_and_store_valid)
  show "restore_from_store E H reliable_io store (store_put E H io store b fs) (new_Chain (config c)) = (Inr (), c)"
    by (simp add: restore_from_store_def load_torn_append [OF assms(1,4,7,9)] restore_loop_all [OF assms(2,3)])
qed

theorem unflushed_append_lost_witness:
  "append_and_store sample_openssl sample_host (torn_io True) sample_store sample_genesis
     (new_Chain default_config, sample_fs_open) =
   (Inr accept, (new_Chain default_config)\<lparr>blocks := blocks (new_Chain default_config) @ [sample_genesis]\<rparr>,
    store_put sample_openssl sample_host (torn_io True) sample_store sample_genesis sample_fs_open) \<and>
   restore_from_store sample_openssl sample_host reliable_io sample_store
     (store_put sample_openssl sample_host (torn_io True) sample_store sample_genesis sample_fs_open)
     (new_Chain (config (new_Chain default_config))) = (Inr (), new_Chain default_config)"
proof (rule unflushed_append_lost)
  show "ofstream_flushed (torn_io True) (length (record_bytes sample_openssl sample_host sample_genesis)) <
      length (record_bytes sample_openssl sample_host sample_genesis)"
    unfolding sample_flushed by (simp add: record_bytes_frame)
qed (use sample_content_ok sample_log_holds sample_block_storable in
    \<open>simp_all add: new_Chain_def chain_pow_def sample_genesis_def sample_block_def torn_io_def reliable_io_def\<close>)

text \<open>The operations that use the store lead only to chains that \<open>append_block\<close> could have built:
  they keep every invariant of the chain.\<close>

theorem store_operations_reachable:
  assumes "chain_reachable E c"
  shows "chain_reachable E (snd (restore_from_store E H io store fs c)) \<and>
    chain_reachable E (fst (snd (append_and_store E H io store b (c, fs))))"
  using assms by (simp add: restore_from_store_reachable append_and_store_reachable)

theorem store_operations_reachable_witness:
  "chain_reachable sample_openssl (snd (restore_from_store sample_openssl sample_host reliable_io sample_store
     sample_fs_open sample_chain)) \<and>
   chain_reachable sample_openssl (fst (snd (append_and_store sample_openssl sample_host reliable_io sample_store
     sample_next (sample_chain, sample_fs_open))))"
  by (rule store_operations_reachable [OF sample_chain_reachable])

end
