(* ===== verification/Astro_Miner.thy ===== *)
theory Astro_Miner
  imports Astro_Chain
begin

text \<open>
  include/astro/core/miner.hpp and src/core/miner.cpp: the search for a nonce. The readings of
  \<open>system_clock\<close> (in seconds) and the values the loop sees in the cancel flag are arguments: the
  \<open>k\<close>-th reading is \<open>clk k\<close>, the flag has the value \<open>cancel i\<close> when it is tested for the
  \<open>i\<close>-th time. Other threads may set the flag at any moment, so \<open>cancel\<close> is any function.
\<close>

section \<open>The loop\<close>

text \<open>
  The local variables of \<open>mine_block\<close>, with the number of the current pass, the number of clock
  readings taken so far and the calls made to \<open>on_progress\<close>.
\<close>

type_synonym progress = "(u64 \<times> u32 \<times> string) list"

record Miner =
  m_block :: Block
  m_nonce :: u64
  m_attempts :: u64
  m_last_bump :: u64
  m_pass :: nat
  m_reads :: nat
  m_progress :: progress

datatype mine_outcome =
    Found Block
  | Threw exn
  | DivideByZero

text \<open>\<open>++attempts % tick_every_ms\<close> is evaluated only when there is a callback; a zero divisor traps.\<close>

definition mine_progress :: "bool \<Rightarrow> u64 \<Rightarrow> u32 \<Rightarrow> Hash256 \<Rightarrow> Miner \<Rightarrow> Miner option" where
  "mine_progress on_progress tick_every_ms leading_zeros hash st =
     (if \<not> on_progress then Some st
      else
        let attempts = m_attempts st + 1;
            st = st\<lparr>m_attempts := attempts\<rparr>
        in if tick_every_ms = 0 then None
           else if attempts mod tick_every_ms = 0
           then Some (st\<lparr>m_progress := m_progress st @ [(attempts, leading_zeros, toHex hash)]\<rparr>)
           else Some st)"

definition mine_bump :: "(nat \<Rightarrow> u64) \<Rightarrow> Miner \<Rightarrow> Miner" where
  "mine_bump clk st =
     (if m_nonce st mod 1000000 = 0 then
        let new_timestamp = clk (m_reads st);
            st = st\<lparr>m_reads := m_reads st + 1\<rparr>
        in if m_last_bump st < new_timestamp
           then st\<lparr>m_block := (m_block st)\<lparr>header := (header (m_block st))\<lparr>hdr_timestamp := new_timestamp\<rparr>\<rparr>,
                   m_last_bump := new_timestamp\<rparr>
           else st
      else st)"

text \<open>One pass: the outcome of the function with the callbacks made, or the state for the next pass.\<close>

definition mine_pass ::
  "openssl \<Rightarrow> (nat \<Rightarrow> u64) \<Rightarrow> u32 \<Rightarrow> bool \<Rightarrow> u64 \<Rightarrow> Miner \<Rightarrow> mine_outcome \<times> progress + Miner" where
  "mine_pass E clk bits on_progress tick_every_ms st =
     (let block = (m_block st)\<lparr>header := (header (m_block st))\<lparr>hdr_nonce := m_nonce st\<rparr>\<rparr>;
          st = st\<lparr>m_block := block\<rparr>;
          hash = hash_header E (header block);
          leading_zeros = leading_zero_bits hash
      in if bits \<le> leading_zeros then Inl (Found block, m_progress st)
         else case mine_progress on_progress tick_every_ms leading_zeros hash st of
             None \<Rightarrow> Inl (DivideByZero, m_progress st)
           | Some st \<Rightarrow>
               let st = mine_bump clk st
               in Inr (st\<lparr>m_nonce := m_nonce st + 1, m_pass := m_pass st + 1\<rparr>))"

partial_function (option) mine_loop ::
  "openssl \<Rightarrow> (nat \<Rightarrow> u64) \<Rightarrow> (nat \<Rightarrow> bool) \<Rightarrow> u32 \<Rightarrow> bool \<Rightarrow> u64 \<Rightarrow> Miner \<Rightarrow> (mine_outcome \<times> progress) option" where
  "mine_loop E clk cancel bits on_progress tick_every_ms st =
     (if cancel (m_pass st) then Some (Threw (RuntimeError ''Mining cancelled''), m_progress st)
      else case mine_pass E clk bits on_progress tick_every_ms st of
          Inl out \<Rightarrow> Some out
        | Inr st' \<Rightarrow> mine_loop E clk cancel bits on_progress tick_every_ms st')"

declare mine_loop.simps [code]

definition mine_init :: "openssl \<Rightarrow> (nat \<Rightarrow> u64) \<Rightarrow> Chain \<Rightarrow> Transaction list \<Rightarrow> Miner" where
  "mine_init E clk c txs =
     \<lparr>m_block = build_block_from_transactions E c txs (clk 0), m_nonce = 0, m_attempts = 0,
      m_last_bump = 0, m_pass = 0, m_reads = 1, m_progress = []\<rparr>"

definition mine_block ::
  "openssl \<Rightarrow> (nat \<Rightarrow> u64) \<Rightarrow> (nat \<Rightarrow> bool) \<Rightarrow> Chain \<Rightarrow> Transaction list \<Rightarrow> u32 \<Rightarrow> bool \<Rightarrow> u64 \<Rightarrow>
     (mine_outcome \<times> progress) option" where
  "mine_block E clk cancel c txs bits on_progress tick_every_ms =
     mine_loop E clk cancel bits on_progress tick_every_ms (mine_init E clk c txs)"

section \<open>The candidates\<close>

text \<open>
  The timestamp in use at the \<open>i\<close>-th pass, the last bump and the number of readings taken.
\<close>

fun stamps :: "(nat \<Rightarrow> u64) \<Rightarrow> nat \<Rightarrow> u64 \<times> u64 \<times> nat" where
  "stamps clk 0 = (clk 0, 0, 1)"
| "stamps clk (Suc i) =
     (let (t, last_bump, k) = stamps clk i
      in if (word_of_nat i :: u64) mod 1000000 = 0
         then (if last_bump < clk k then (clk k, clk k, k + 1) else (t, last_bump, k + 1))
         else (t, last_bump, k))"

definition candidate :: "openssl \<Rightarrow> (nat \<Rightarrow> u64) \<Rightarrow> Chain \<Rightarrow> Transaction list \<Rightarrow> nat \<Rightarrow> Block" where
  "candidate E clk c txs i =
     (let b = build_block_from_transactions E c txs (clk 0)
      in b\<lparr>header := (header b)\<lparr>hdr_timestamp := fst (stamps clk i), hdr_nonce := word_of_nat i\<rparr>\<rparr>)"

definition solves :: "openssl \<Rightarrow> u32 \<Rightarrow> Block \<Rightarrow> bool" where
  "solves E d b \<longleftrightarrow> d \<le> leading_zero_bits (hash_header E (header b))"

text \<open>The search ends at the first pass that is cancelled or whose candidate solves the puzzle.\<close>

definition search_ends ::
  "openssl \<Rightarrow> (nat \<Rightarrow> u64) \<Rightarrow> (nat \<Rightarrow> bool) \<Rightarrow> Chain \<Rightarrow> Transaction list \<Rightarrow> u32 \<Rightarrow> nat \<Rightarrow> bool" where
  "search_ends E clk cancel c txs d i \<longleftrightarrow> cancel i \<or> solves E d (candidate E clk c txs i)"

text \<open>The state before the \<open>i\<close>-th pass.\<close>

definition at_pass :: "openssl \<Rightarrow> (nat \<Rightarrow> u64) \<Rightarrow> Chain \<Rightarrow> Transaction list \<Rightarrow> nat \<Rightarrow> Miner \<Rightarrow> bool" where
  "at_pass E clk c txs i st \<longleftrightarrow>
     (m_block st)\<lparr>header := (header (m_block st))\<lparr>hdr_nonce := word_of_nat i\<rparr>\<rparr> = candidate E clk c txs i \<and>
     m_nonce st = word_of_nat i \<and> m_pass st = i \<and>
     (m_last_bump st, m_reads st) = snd (stamps clk i)"

lemma at_pass_init: "at_pass E clk c txs 0 (mine_init E clk c txs)"
  by (simp add: at_pass_def mine_init_def candidate_def build_block_from_transactions_def Let_def)

lemma mine_progress_fields:
  assumes "mine_progress p tick z h st = Some st'"
  shows "m_block st' = m_block st \<and> m_nonce st' = m_nonce st \<and> m_pass st' = m_pass st \<and>
    m_reads st' = m_reads st \<and> m_last_bump st' = m_last_bump st"
  using assms by (auto simp: mine_progress_def Let_def split: if_splits)

lemma mine_progress_defined: "tick \<noteq> 0 \<or> \<not> p \<Longrightarrow> \<exists>st'. mine_progress p tick z h st = Some st'"
  by (auto simp: mine_progress_def Let_def)

lemma mine_pass_found:
  assumes "at_pass E clk c txs i st" and "solves E d (candidate E clk c txs i)"
  shows "mine_pass E clk d p tick st = Inl (Found (candidate E clk c txs i), m_progress st)"
  using assms by (simp add: mine_pass_def at_pass_def solves_def Let_def)

lemma mine_bump_fields [simp]:
  "m_nonce (mine_bump clk st) = m_nonce st" "m_pass (mine_bump clk st) = m_pass st"
  by (simp_all add: mine_bump_def Let_def)

lemma mine_bump_at_pass:
  assumes "at_pass E clk c txs i st"
  shows "at_pass E clk c txs (Suc i) ((mine_bump clk st)\<lparr>m_nonce := m_nonce st + 1, m_pass := m_pass st + 1\<rparr>)"
proof -
  obtain t l k where s: "stamps clk i = (t, l, k)" by (metis prod_cases3)
  let ?b = "build_block_from_transactions E c txs (clk 0)"
  let ?h = "header ?b"
  from assms s have m: "m_nonce st = word_of_nat i" "m_pass st = i" "m_last_bump st = l" "m_reads st = k"
    and b: "(m_block st)\<lparr>header := (header (m_block st))\<lparr>hdr_nonce := word_of_nat i\<rparr>\<rparr> =
      ?b\<lparr>header := ?h\<lparr>hdr_timestamp := t, hdr_nonce := word_of_nat i\<rparr>\<rparr>"
    by (simp_all add: at_pass_def candidate_def Let_def)
  have "transactions (m_block st) = transactions ?b"
    and "hdr_version (header (m_block st)) = hdr_version ?h" and "prev_hash (header (m_block st)) = prev_hash ?h"
    and "merkle_root (header (m_block st)) = merkle_root ?h" and "hdr_timestamp (header (m_block st)) = t"
    using arg_cong [OF b, of transactions] arg_cong [OF b, of "hdr_version \<circ> header"]
      arg_cong [OF b, of "prev_hash \<circ> header"] arg_cong [OF b, of "merkle_root \<circ> header"]
      arg_cong [OF b, of "hdr_timestamp \<circ> header"]
    by simp_all
  with m s show ?thesis
    by (cases "m_block st"; cases "header (m_block st)"; cases ?b; cases ?h)
      (simp add: at_pass_def candidate_def mine_bump_def Let_def)
qed

lemma mine_pass_next:
  assumes "at_pass E clk c txs i st" and "\<not> solves E d (candidate E clk c txs i)" and "tick \<noteq> 0 \<or> \<not> p"
  obtains st' where "mine_pass E clk d p tick st = Inr st'" and "at_pass E clk c txs (Suc i) st'"
proof -
  let ?b = "candidate E clk c txs i"
  let ?h = "hash_header E (header ?b)"
  obtain st2 where st2: "mine_progress p tick (leading_zero_bits ?h) ?h (st\<lparr>m_block := ?b\<rparr>) = Some st2"
    using mine_progress_defined [OF assms(3)] by blast
  have "at_pass E clk c txs i (st\<lparr>m_block := ?b\<rparr>)"
    using assms(1) by (simp add: at_pass_def candidate_def Let_def)
  with mine_progress_fields [OF st2] have "at_pass E clk c txs i st2"
    by (simp add: at_pass_def)
  from mine_bump_at_pass [OF this] have "at_pass E clk c txs (Suc i)
      ((mine_bump clk st2)\<lparr>m_nonce := m_nonce (mine_bump clk st2) + 1, m_pass := m_pass (mine_bump clk st2) + 1\<rparr>)"
    by simp
  moreover have "mine_pass E clk d p tick st =
      Inr ((mine_bump clk st2)\<lparr>m_nonce := m_nonce (mine_bump clk st2) + 1, m_pass := m_pass (mine_bump clk st2) + 1\<rparr>)"
    using assms(1,2) st2 by (simp add: mine_pass_def at_pass_def solves_def Let_def)
  ultimately show ?thesis by (rule that [rotated])
qed

section \<open>What the loop returns\<close>

text \<open>The loop reaches the pass at which the search ends, with every invariant of the passes.\<close>

lemma mine_loop_reaches:
  assumes "at_pass E clk c txs i st" and "keeps i st" and "tick \<noteq> 0 \<or> \<not> p" and "i \<le> n"
    and "\<forall>j < n. \<not> search_ends E clk cancel c txs d j"
    and step: "\<And>j st st'. j < n \<Longrightarrow> keeps j st \<Longrightarrow> at_pass E clk c txs j st \<Longrightarrow>
        mine_pass E clk d p tick st = Inr st' \<Longrightarrow> keeps (Suc j) st'"
  shows "\<exists>st'. at_pass E clk c txs n st' \<and> keeps n st' \<and>
    mine_loop E clk cancel d p tick st = mine_loop E clk cancel d p tick st'"
  using assms(1,2,4)
proof (induction "n - i" arbitrary: i st)
  case 0
  then show ?case by auto
next
  case (Suc k)
  then have "i < n" by simp
  with assms(5) have go: "\<not> cancel i" "\<not> solves E d (candidate E clk c txs i)"
    by (auto simp: search_ends_def)
  from mine_pass_next [OF Suc.prems(1) go(2) assms(3)] obtain st' where
    pass: "mine_pass E clk d p tick st = Inr st'" and st': "at_pass E clk c txs (Suc i) st'" .
  have "mine_loop E clk cancel d p tick st = mine_loop E clk cancel d p tick st'"
    using pass go Suc.prems(1) by (simp add: mine_loop.simps [of E clk cancel d p tick st] at_pass_def)
  with Suc.hyps(1) [OF _ st' step [OF \<open>i < n\<close> Suc.prems(2,1) pass]] Suc.hyps(2) \<open>i < n\<close>
  show ?case by simp
qed

lemma mine_loop_ends:
  assumes "at_pass E clk c txs n st" and "search_ends E clk cancel c txs d n"
  shows "mine_loop E clk cancel d p tick st =
    Some (if cancel n then Threw (RuntimeError ''Mining cancelled'') else Found (candidate E clk c txs n),
          m_progress st)"
proof (cases "cancel n")
  case True
  with assms show ?thesis by (simp add: mine_loop.simps [of E clk cancel d p tick st] at_pass_def)
next
  case False
  with assms mine_pass_found [OF assms(1), of d p tick] show ?thesis
    by (simp add: mine_loop.simps [of E clk cancel d p tick st] search_ends_def) (simp add: at_pass_def)
qed

text \<open>The loop returns only when the search ends.\<close>

lemma mine_loop_returns:
  "mine_loop E clk cancel d p tick st = Some r \<Longrightarrow>
     (\<forall>i. at_pass E clk c txs i st \<longrightarrow> tick \<noteq> 0 \<or> \<not> p \<longrightarrow> (\<exists>n \<ge> i. search_ends E clk cancel c txs d n))"
proof (erule mine_loop.raw_induct [rotated], intro allI impI)
  fix loop E clk cancel d p tick st r i
  assume IH: "\<And>E clk cancel d p tick st y. loop E clk cancel d p tick st = Some y \<Longrightarrow>
      \<forall>i. at_pass E clk c txs i st \<longrightarrow> tick \<noteq> 0 \<or> \<not> p \<longrightarrow> (\<exists>n \<ge> i. search_ends E clk cancel c txs d n)"
    and eq: "(if cancel (m_pass st) then Some (Threw (RuntimeError ''Mining cancelled''), m_progress st)
      else case mine_pass E clk d p tick st of Inl out \<Rightarrow> Some out | Inr st' \<Rightarrow> loop E clk cancel d p tick st') = Some r"
    and at: "at_pass E clk c txs i st" and tick: "tick \<noteq> 0 \<or> \<not> p"
  show "\<exists>n \<ge> i. search_ends E clk cancel c txs d n"
  proof (cases "search_ends E clk cancel c txs d i")
    case False
    then have go: "\<not> cancel i" "\<not> solves E d (candidate E clk c txs i)" by (simp_all add: search_ends_def)
    obtain st' where pass: "mine_pass E clk d p tick st = Inr st'" and st': "at_pass E clk c txs (Suc i) st'"
      by (rule mine_pass_next [OF at go(2) tick])
    with eq at go(1) have "loop E clk cancel d p tick st' = Some r" by (simp add: at_pass_def)
    from IH [OF this] st' tick show ?thesis using Suc_leD by blast
  qed blast
qed

lemma stamps_from_clock: "\<exists>k. fst (stamps clk i) = clk k"
  by (induction i) (auto simp: Let_def split: prod.split)

text \<open>A block that is returned is a candidate that solves the puzzle, whatever the callback does.\<close>

lemma mine_pass_zero_tick:
  assumes "at_pass E clk c txs i st" and "\<not> solves E d (candidate E clk c txs i)"
  shows "mine_pass E clk d True 0 st = Inl (DivideByZero, m_progress st)"
  using assms by (simp add: mine_pass_def at_pass_def solves_def mine_progress_def Let_def)

lemma mine_loop_found:
  "mine_loop E clk cancel d p tick st = Some r \<Longrightarrow>
     (\<forall>i b. at_pass E clk c txs i st \<longrightarrow> fst r = Found b \<longrightarrow>
        (\<exists>n. b = candidate E clk c txs n \<and> solves E d b \<and> \<not> cancel n))"
proof (erule mine_loop.raw_induct [rotated], intro allI impI)
  fix loop E clk cancel d p tick st r i b
  assume IH: "\<And>E clk cancel d p tick st y. loop E clk cancel d p tick st = Some y \<Longrightarrow>
      \<forall>i b. at_pass E clk c txs i st \<longrightarrow> fst y = Found b \<longrightarrow>
        (\<exists>n. b = candidate E clk c txs n \<and> solves E d b \<and> \<not> cancel n)"
    and eq: "(if cancel (m_pass st) then Some (Threw (RuntimeError ''Mining cancelled''), m_progress st)
      else case mine_pass E clk d p tick st of Inl out \<Rightarrow> Some out | Inr st' \<Rightarrow> loop E clk cancel d p tick st') = Some r"
    and at: "at_pass E clk c txs i st" and r: "fst r = Found b"
  have run: "\<not> cancel i" using eq r at by (auto simp: at_pass_def split: if_splits)
  show "\<exists>n. b = candidate E clk c txs n \<and> solves E d b \<and> \<not> cancel n"
  proof (cases "solves E d (candidate E clk c txs i)")
    case True
    from mine_pass_found [OF at True, of p tick] eq run at r show ?thesis
      using True by (auto simp: at_pass_def)
  next
    case False
    show ?thesis
    proof (cases "p \<and> tick = 0")
      case True
      with mine_pass_zero_tick [OF at False] eq run at r show ?thesis by (auto simp: at_pass_def)
    next
      case tick: False
      then obtain st' where "mine_pass E clk d p tick st = Inr st'" and st': "at_pass E clk c txs (Suc i) st'"
        using mine_pass_next [OF at False] by blast
      with eq run at have "loop E clk cancel d p tick st' = Some r" by (simp add: at_pass_def)
      from IH [OF this] st' r show ?thesis by blast
    qed
  qed
qed

lemma mine_block_found:
  assumes "mine_block E clk cancel c txs d p tick = Some (Found b, pr)"
  obtains n where "b = candidate E clk c txs n" and "solves E d b" and "\<not> cancel n"
  using mine_loop_found [OF assms [unfolded mine_block_def]] at_pass_init by fastforce

section \<open>Progress reports\<close>

text \<open>The report due after the \<open>a\<close>-th failed attempt, which was the pass \<open>a - 1\<close>.\<close>

definition report :: "openssl \<Rightarrow> (nat \<Rightarrow> u64) \<Rightarrow> Chain \<Rightarrow> Transaction list \<Rightarrow> nat \<Rightarrow> u64 \<times> u32 \<times> string" where
  "report E clk c txs a =
     (let hash = hash_header E (header (candidate E clk c txs (a - 1)))
      in (word_of_nat a, leading_zero_bits hash, toHex hash))"

definition reports :: "openssl \<Rightarrow> (nat \<Rightarrow> u64) \<Rightarrow> Chain \<Rightarrow> Transaction list \<Rightarrow> u64 \<Rightarrow> nat \<Rightarrow> progress" where
  "reports E clk c txs tick n = map (report E clk c txs) (filter (\<lambda>a. a mod unat tick = 0) [1..<Suc n])"

definition reported :: "openssl \<Rightarrow> (nat \<Rightarrow> u64) \<Rightarrow> Chain \<Rightarrow> Transaction list \<Rightarrow> bool \<Rightarrow> u64 \<Rightarrow> nat \<Rightarrow> Miner \<Rightarrow> bool" where
  "reported E clk c txs p tick i st \<longleftrightarrow>
     (if p then m_attempts st = word_of_nat i \<and> m_progress st = reports E clk c txs tick i
      else m_progress st = [])"

lemma word_mod_eq_0: "n < 2 ^ 64 \<Longrightarrow> (word_of_nat n :: u64) mod t = 0 \<longleftrightarrow> n mod unat t = 0"
  using le_less_trans [OF mod_less_eq_dividend [of n "unat t"], of "2 ^ 64"]
  by (simp add: word_arith_nat_mod word_unat_eq_iff unat_word_ariths unat_of_nat)

lemma reported_step:
  assumes "reported E clk c txs p tick i st" and "at_pass E clk c txs i st"
    and "mine_pass E clk d p tick st = Inr st'" and "Suc i < 2 ^ 64"
  shows "reported E clk c txs p tick (Suc i) st'"
proof -
  let ?h = "hash_header E (header (candidate E clk c txs i))"
  obtain st2 where st2: "mine_progress p tick (leading_zero_bits ?h) ?h (st\<lparr>m_block := candidate E clk c txs i\<rparr>) = Some st2"
    and st': "st' = (mine_bump clk st2)\<lparr>m_nonce := m_nonce (mine_bump clk st2) + 1, m_pass := m_pass (mine_bump clk st2) + 1\<rparr>"
    using assms(2,3) by (auto simp: mine_pass_def at_pass_def Let_def split: if_splits option.splits)
  have keep: "m_attempts st' = m_attempts st2" "m_progress st' = m_progress st2"
    by (simp_all add: st' mine_bump_def Let_def)
  show ?thesis
  proof (cases p)
    case True
    then have a: "m_attempts st + 1 = word_of_nat (Suc i)" using assms(1) by (simp add: reported_def)
    with True st2 assms(1) word_mod_eq_0 [OF assms(4), of tick] show ?thesis
      by (auto simp: reported_def keep mine_progress_def reports_def report_def Let_def split: if_splits)
  next
    case False
    with assms(1) st2 show ?thesis by (auto simp: reported_def keep mine_progress_def)
  qed
qed

lemma mine_block_ends:
  assumes "\<exists>n. search_ends E clk cancel c txs d n" and "tick \<noteq> 0 \<or> \<not> p"
  shows "\<exists>pr. mine_block E clk cancel c txs d p tick =
    Some (let n = LEAST n. search_ends E clk cancel c txs d n
          in if cancel n then Threw (RuntimeError ''Mining cancelled'') else Found (candidate E clk c txs n), pr)"
proof -
  define n where "n = (LEAST n. search_ends E clk cancel c txs d n)"
  have ends: "search_ends E clk cancel c txs d n" using assms(1) unfolding n_def by (rule LeastI_ex)
  have "\<not> search_ends E clk cancel c txs d j" if "j < n" for j
    using that unfolding n_def by (rule not_less_Least)
  with mine_loop_reaches [OF at_pass_init, where keeps = "\<lambda>_ _. True" and tick = tick and p = p and n = n
    and cancel = cancel and d = d and E = E and clk = clk and c = c and txs = txs] assms(2)
  obtain st where "at_pass E clk c txs n st" and "mine_block E clk cancel c txs d p tick = mine_loop E clk cancel d p tick st"
    by (auto simp: mine_block_def)
  with mine_loop_ends [OF _ ends] show ?thesis by (simp add: n_def [symmetric] Let_def)
qed

text \<open>Without cancellation a solution is found as soon as one exists.\<close>

lemma mine_block_finds:
  assumes "\<exists>n. search_ends E clk (\<lambda>_. False) c txs d n"
  obtains b pr where "mine_block E clk (\<lambda>_. False) c txs d True 25000 = Some (Found b, pr)"
  using mine_block_ends [OF assms, of 25000 True] by (auto simp: Let_def)

lemma mined_content_ok:
  assumes "mine_block E clk cancel c txs d p tick = Some (Found b, pr)"
    and "blocks c \<noteq> []" and "\<forall>k. hdr_timestamp (header (last (blocks c))) \<le> clk k"
    and "\<forall>tx \<in> set txs. from_pub_pem tx \<noteq> [] \<and> verify E tx = Inr True"
  shows "content_ok E (blocks c) b"
proof -
  obtain n where b: "b = candidate E clk c txs n" by (rule mine_block_found [OF assms(1)])
  obtain k where k: "fst (stamps clk n) = clk k" using stamps_from_clock by blast
  have "content_ok E (blocks c) (build_block_from_transactions E c txs (clk k))"
    using assms(2-4) by (intro content_ok_built) (auto simp: is_coinbase_def)
  then show ?thesis
    using assms(2) k
    by (simp add: b candidate_def content_ok_def link_ok_def signatures_ok_def build_block_from_transactions_def Let_def)
qed

section \<open>A concrete search\<close>

text \<open>Over the sample chain and a clock that ticks with every reading, the third candidate is the first with 253 bits.\<close>

definition sample_clk :: "nat \<Rightarrow> u64" where
  "sample_clk k = 1700000002 + word_of_nat k"

definition sample_candidate :: "nat \<Rightarrow> Block" where
  "sample_candidate = candidate sample_openssl sample_clk sample_chain [sample_signed]"

lemma sample_solves:
  "\<not> solves sample_openssl 253 (sample_candidate 0)"
  "\<not> solves sample_openssl 253 (sample_candidate 1)"
  "solves sample_openssl 253 (sample_candidate 2)"
  by code_simp+

lemma sample_search_ends:
  "search_ends sample_openssl sample_clk (\<lambda>_. False) sample_chain [sample_signed] 253 2"
  "\<forall>j < 2. \<not> search_ends sample_openssl sample_clk (\<lambda>_. False) sample_chain [sample_signed] 253 j"
  using sample_solves
  by (simp_all add: search_ends_def sample_candidate_def numeral_2_eq_2 All_less_Suc)

lemma sample_search_Least:
  "(LEAST n. search_ends sample_openssl sample_clk (\<lambda>_. False) sample_chain [sample_signed] 253 n) = 2"
  using sample_search_ends by (intro Least_equality) (auto simp: not_less [symmetric])

text \<open>A clock that stands still before the timestamp of the sample chain's tip.\<close>

lemma sample_early_solves:
  "solves sample_openssl 8 (candidate sample_openssl (\<lambda>_. 5) sample_chain [] 0)"
  by code_simp

lemma mine_block_first:
  assumes "solves E d (candidate E clk c txs 0)" and "\<not> cancel 0"
  shows "mine_block E clk cancel c txs d p tick = Some (Found (candidate E clk c txs 0), [])"
  using mine_loop_ends [OF at_pass_init, where cancel = cancel and d = d and p = p and tick = tick] assms
  by (simp add: mine_block_def search_ends_def mine_init_def)

lemma sample_early_mined:
  "mine_block sample_openssl (\<lambda>_. 5) (\<lambda>_. False) sample_chain [] 8 False 0 =
     Some (Found (candidate sample_openssl (\<lambda>_. 5) sample_chain [] 0), [])"
  by (rule mine_block_first [OF sample_early_solves]) simp

section \<open>Properties\<close>

text \<open>C10: \<open>mine_block\<close> is a linear search. It tries the candidates in order, the \<open>i\<close>-th with nonce \<open>i\<close>
  and the timestamp read last, and returns the first that has enough leading zero bits; it throws
  if the cancel flag is seen first, and otherwise never returns. With a callback the tick must not
  be zero.\<close>

theorem mine_block_search:
  assumes "tick \<noteq> 0 \<or> \<not> p"
  shows "map_option fst (mine_block E clk cancel c txs d p tick) =
    (if \<exists>n. search_ends E clk cancel c txs d n
     then let n = LEAST n. search_ends E clk cancel c txs d n
          in Some (if cancel n then Threw (RuntimeError ''Mining cancelled'') else Found (candidate E clk c txs n))
     else None)"
proof (cases "\<exists>n. search_ends E clk cancel c txs d n")
  case True
  from mine_block_ends [OF this assms] True show ?thesis by (auto simp: Let_def)
next
  case False
  have "mine_block E clk cancel c txs d p tick = None"
  proof (rule ccontr)
    assume "mine_block E clk cancel c txs d p tick \<noteq> None"
    then obtain r where "mine_loop E clk cancel d p tick (mine_init E clk c txs) = Some r"
      by (auto simp: mine_block_def)
    from mine_loop_returns [OF this] at_pass_init assms False show False by blast
  qed
  with False show ?thesis by simp
qed

theorem mine_block_search_witness:
  "map_option fst (mine_block sample_openssl sample_clk (\<lambda>_. False) sample_chain [sample_signed] 253 True 2) =
   Some (Found (sample_candidate 2))"
  using mine_block_search [of 2 True sample_openssl sample_clk "\<lambda>_. False" sample_chain "[sample_signed]" 253]
    sample_search_ends(1)
  by (auto simp: sample_search_Least sample_candidate_def)

text \<open>A mined block is accepted by the chain it was mined for: when no clock reading lies before
  the timestamp of the tip, the transactions are signed and the difficulty mined for is at least the
  configured one, \<open>append_block\<close> accepts the block and it becomes the tip.\<close>

theorem mined_block_accepted:
  assumes "mine_block E clk cancel c txs d p tick = Some (Found b, pr)"
    and "blocks c \<noteq> []" and "\<forall>k. hdr_timestamp (header (last (blocks c))) \<le> clk k"
    and "\<forall>tx \<in> set txs. from_pub_pem tx \<noteq> [] \<and> verify E tx = Inr True"
    and "difficulty_bits (config c) \<le> d"
  shows "append_block E b c = (Inr accept, c\<lparr>blocks := blocks c @ [b]\<rparr>)"
proof (rule append_block_valid)
  show "content_ok E (blocks c) b" by (rule mined_content_ok [OF assms(1-4)])
  have "solves E d b" by (rule mine_block_found [OF assms(1)])
  with assms(5) show "pow_ok E (config c) (blocks c) b"
    by (auto simp: pow_ok_def solves_def meets_difficulty_def)
qed

theorem mined_block_accepted_witness:
  "append_block sample_openssl (candidate sample_openssl (\<lambda>_. 1700000001) sample_chain [] 0)
     (set_difficulty_bits 8 sample_chain) =
   (Inr accept, (set_difficulty_bits 8 sample_chain)\<lparr>blocks := blocks (set_difficulty_bits 8 sample_chain) @
      [candidate sample_openssl (\<lambda>_. 1700000001) sample_chain [] 0]\<rparr>)"
proof (rule mined_block_accepted)
  have "solves sample_openssl 8 (candidate sample_openssl (\<lambda>_. 1700000001) sample_chain [] 0)"
    by code_simp
  moreover have "candidate sample_openssl (\<lambda>_. 1700000001) (set_difficulty_bits 8 sample_chain) [] 0 =
      candidate sample_openssl (\<lambda>_. 1700000001) sample_chain [] 0"
    by (simp add: candidate_def build_block_from_transactions_def set_difficulty_bits_def Let_def)
  ultimately show "mine_block sample_openssl (\<lambda>_. 1700000001) (\<lambda>_. False) (set_difficulty_bits 8 sample_chain) [] 8 False 0 =
      Some (Found (candidate sample_openssl (\<lambda>_. 1700000001) sample_chain [] 0), [])"
    using mine_block_first [of sample_openssl 8 "\<lambda>_. 1700000001" "set_difficulty_bits 8 sample_chain" "[]"
        "\<lambda>_. False" False 0]
    by simp
qed (simp_all add: set_difficulty_bits_def sample_chain_def sample_genesis_def make_genesis_block_def Let_def)

text \<open>The miner does not compare its clock with the chain: when every reading lies before the
  timestamp of the tip, whatever block it returns is refused as \<open>NonMonotonicTimestamp\<close>.\<close>

theorem mined_with_late_clock_rejected:
  assumes "mine_block E clk cancel c txs d p tick = Some (Found b, pr)"
    and "blocks c \<noteq> []" and "\<forall>k. clk k < hdr_timestamp (header (last (blocks c)))"
  shows "append_block E b c = (Inr (reject NonMonotonicTimestamp no_index), c)"
proof -
  obtain n where b: "b = candidate E clk c txs n" by (rule mine_block_found [OF assms(1)])
  obtain k where "fst (stamps clk n) = clk k" using stamps_from_clock by blast
  with assms(2,3) have "validate_link E c b = Some (reject NonMonotonicTimestamp no_index)"
    by (simp add: b candidate_def validate_link_def build_block_from_transactions_def Let_def)
  then show ?thesis by (simp add: append_block_def validate_block_cases reject_def)
qed

theorem mined_with_late_clock_rejected_witness:
  "append_block sample_openssl (candidate sample_openssl (\<lambda>_. 5) sample_chain [] 0) sample_chain =
   (Inr (reject NonMonotonicTimestamp no_index), sample_chain)"
  by (rule mined_with_late_clock_rejected [OF sample_early_mined])
    (simp_all add: sample_chain_def sample_genesis_def make_genesis_block_def Let_def)

text \<open>Progress is reported after every \<open>tick_every_ms\<close>-th failed attempt, in order, with the number of
  attempts and the hash of the last one; the block that is returned is never reported. Without a
  callback nothing is reported.\<close>

theorem mine_progress_reports:
  assumes "tick \<noteq> 0 \<or> \<not> p" and "search_ends E clk cancel c txs d n"
    and "\<forall>j < n. \<not> search_ends E clk cancel c txs d j" and "n < 2 ^ 64"
  shows "map_option snd (mine_block E clk cancel c txs d p tick) =
    Some (if p then reports E clk c txs tick n else [])"
proof -
  have "reported E clk c txs p tick 0 (mine_init E clk c txs)"
    by (simp add: reported_def mine_init_def reports_def)
  with mine_loop_reaches [OF at_pass_init, where keeps = "reported E clk c txs p tick" and tick = tick and p = p
    and n = n and cancel = cancel and d = d and E = E and clk = clk and c = c and txs = txs]
    reported_step [of E clk c txs p tick] assms
  obtain st where "at_pass E clk c txs n st" and st: "reported E clk c txs p tick n st"
    and "mine_block E clk cancel c txs d p tick = mine_loop E clk cancel d p tick st"
    by (auto simp: mine_block_def)
  with mine_loop_ends [OF _ assms(2)] show ?thesis by (simp add: reported_def)
qed

theorem mine_progress_reports_witness:
  "map_option snd (mine_block sample_openssl sample_clk (\<lambda>_. False) sample_chain [sample_signed] 253 True 2) =
   Some [report sample_openssl sample_clk sample_chain [sample_signed] 2]"
  using mine_progress_reports [of 2 True, OF _ sample_search_ends]
  by (simp add: reports_def upt_conv_Cons) (simp add: numeral_2_eq_2 [symmetric])

end
