(* ===== verification/Astro_Terminal.thy ===== *)
theory Astro_Terminal
  imports Astro_Prelude
begin

text \<open>
  The namespace \<open>tui\<close> of src/cli/tui.cpp: the guards that change and restore the terminal, escape
  sequences and boxes, and the formatting helpers of the display. What is written to the terminal is
  a list of items, with the bytes each stands for.

  Floating-point numbers are the 64 bits of a \<open>double\<close>; arithmetic on them, \<open>printf\<close>'s rounding to a
  number of decimals and the formatting of a stream belong to the machine and the standard library and
  are a parameter, the record \<open>fp\<close>.
\<close>

section \<open>Floating point\<close>

type_synonym double = u64

record fp =
  fp_lit :: "string \<Rightarrow> double"
  fp_seconds :: "int \<Rightarrow> double"
  fp_of_u64 :: "u64 \<Rightarrow> double"
  fp_of_int :: "int \<Rightarrow> double"
  fp_add :: "double \<Rightarrow> double \<Rightarrow> double"
  fp_mul :: "double \<Rightarrow> double \<Rightarrow> double"
  fp_div :: "double \<Rightarrow> double \<Rightarrow> double"
  fp_neg :: "double \<Rightarrow> double"
  fp_less :: "double \<Rightarrow> double \<Rightarrow> bool"
  fp_le :: "double \<Rightarrow> double \<Rightarrow> bool"
  fp_exp :: "double \<Rightarrow> double"
  fp_log :: "double \<Rightarrow> double"
  fp_pow :: "double \<Rightarrow> double \<Rightarrow> double"
  fp_floor :: "double \<Rightarrow> int"
  fp_llround :: "double \<Rightarrow> int"
  fp_trunc :: "double \<Rightarrow> int"
  fp_fixed :: "nat \<Rightarrow> double \<Rightarrow> string"
  fp_show :: "double \<Rightarrow> string"

text \<open>\<open>std::max\<close>.\<close>

definition fp_max :: "fp \<Rightarrow> double \<Rightarrow> double \<Rightarrow> double" where
  "fp_max F a b = (if fp_less F a b then b else a)"

definition show_int :: "int \<Rightarrow> string" where
  "show_int i = (if i < 0 then CHR ''-'' # decimal (nat (- i)) else decimal (nat i))"

section \<open>Output\<close>

datatype out =
    Text string
  | Clear
  | Home
  | HideCursor
  | ShowCursor
  | AltScreenOn
  | AltScreenOff
  | Reset
  | Fg int
  | Move int int

definition esc :: "string \<Rightarrow> string" where
  "esc s = char_of (27 :: nat) # CHR ''['' # s"

fun render :: "out \<Rightarrow> string" where
  "render (Text s) = s"
| "render Clear = esc ''2J''"
| "render Home = esc ''H''"
| "render HideCursor = esc ''?25l''"
| "render ShowCursor = esc ''?25h''"
| "render AltScreenOn = esc ''?1049h''"
| "render AltScreenOff = esc ''?1049l''"
| "render Reset = esc ''0m''"
| "render (Fg code) = esc (show_int code @ ''m'')"
| "render (Move r c) = esc (show_int r @ '';'' @ show_int c @ ''H'')"

definition utf8 :: "u8 list \<Rightarrow> out" where
  "utf8 bs = Text (bytes_string bs)"

text \<open>A \<open>for\<close> loop over the integers from \<open>a\<close> below \<open>b\<close>.\<close>

definition for_range :: "int \<Rightarrow> int \<Rightarrow> (int \<Rightarrow> out list) \<Rightarrow> out list" where
  "for_range a b f = concat (map f [a..b - 1])"

definition box :: "int \<Rightarrow> int \<Rightarrow> int \<Rightarrow> int \<Rightarrow> out list" where
  "box r1 c1 r2 c2 =
     [Move r1 c1, utf8 [0xE2, 0x94, 0x8C]] @ for_range (c1 + 1) c2 (\<lambda>_. [utf8 [0xE2, 0x94, 0x80]]) @
     [utf8 [0xE2, 0x94, 0x90]] @
     for_range (r1 + 1) r2 (\<lambda>r. [Move r c1, utf8 [0xE2, 0x94, 0x82], Move r c2, utf8 [0xE2, 0x94, 0x82]]) @
     [Move r2 c1, utf8 [0xE2, 0x94, 0x94]] @ for_range (c1 + 1) c2 (\<lambda>_. [utf8 [0xE2, 0x94, 0x80]]) @
     [utf8 [0xE2, 0x94, 0x98]]"

section \<open>Guards\<close>

text \<open>
  The settings of the terminal that the guards touch: the local flags, the two control characters
  and the status flags of the descriptor.
\<close>

record tty =
  c_lflag :: u32
  vmin :: u8
  vtime :: u8
  fl_flags :: u32

text \<open>The constants of the system's headers, and the outcomes of the calls of a guard.\<close>

record tty_calls =
  ICANON :: u32
  ECHO :: u32
  O_NONBLOCK :: u32
  tcgetattr_ok :: bool
  tcsetattr_ok :: bool
  getfl_ok :: bool
  setfl_ok :: bool

record TermiosGuard =
  guard_orig :: tty
  guard_ok :: bool
  orig_flags :: "u32 option"

text \<open>The settings \<open>tcsetattr\<close> changes; \<open>F_SETFL\<close> changes the others.\<close>

definition set_termios :: "tty \<Rightarrow> tty \<Rightarrow> tty" where
  "set_termios new t = t\<lparr>c_lflag := c_lflag new, vmin := vmin new, vtime := vtime new\<rparr>"

definition new_TermiosGuard :: "tty_calls \<Rightarrow> tty \<Rightarrow> TermiosGuard \<times> tty" where
  "new_TermiosGuard sys t =
     (let raw = t\<lparr>c_lflag := c_lflag t AND NOT (ICANON sys OR ECHO sys), vmin := 0, vtime := 0\<rparr>;
          took = (tcgetattr_ok sys \<and> tcsetattr_ok sys);
          flags = (if getfl_ok sys then Some (fl_flags t) else None);
          t1 = (if took then set_termios raw t else t);
          t2 = (case flags of
                  Some fl \<Rightarrow> if setfl_ok sys then t1\<lparr>fl_flags := fl OR O_NONBLOCK sys\<rparr> else t1
                | None \<Rightarrow> t1)
      in (\<lparr>guard_orig = t, guard_ok = took, orig_flags = flags\<rparr>, t2))"

definition destroy_TermiosGuard :: "tty_calls \<Rightarrow> TermiosGuard \<Rightarrow> tty \<Rightarrow> tty" where
  "destroy_TermiosGuard sys g t =
     (let t = (if guard_ok g \<and> tcsetattr_ok sys then set_termios (guard_orig g) t else t)
      in case orig_flags g of
           Some fl \<Rightarrow> if setfl_ok sys then t\<lparr>fl_flags := fl\<rparr> else t
         | None \<Rightarrow> t)"

definition new_ScreenGuard :: "out list" where
  "new_ScreenGuard = [AltScreenOn, HideCursor]"

definition destroy_ScreenGuard :: "out list" where
  "destroy_ScreenGuard = [ShowCursor, AltScreenOff]"

section \<open>Frame rate\<close>

record FPS =
  fps_last :: int
  fps_avg :: double

definition fps_tick :: "fp \<Rightarrow> int \<Rightarrow> FPS \<Rightarrow> FPS" where
  "fps_tick F now f =
     (let dt = fp_seconds F (now - fps_last f);
          inst = (if fp_less F (fp_of_int F 0) dt then fp_div F (fp_lit F ''1.0'') dt else fp_lit F ''0.0'')
      in f\<lparr>fps_last := now,
           fps_avg := fp_add F (fp_mul F (fps_avg f) (fp_lit F ''0.9'')) (fp_mul F inst (fp_lit F ''0.1''))\<rparr>)"

section \<open>Formatting\<close>

definition human_rate :: "fp \<Rightarrow> double \<Rightarrow> string" where
  "human_rate F rps =
     (if fp_le F (fp_lit F ''1e9'') rps then fp_fixed F 2 (fp_div F rps (fp_lit F ''1e9'')) @ '' GH/s''
      else if fp_le F (fp_lit F ''1e6'') rps then fp_fixed F 2 (fp_div F rps (fp_lit F ''1e6'')) @ '' MH/s''
      else if fp_le F (fp_lit F ''1e3'') rps then fp_fixed F 2 (fp_div F rps (fp_lit F ''1e3'')) @ '' KH/s''
      else fp_fixed F 0 rps @ '' H/s'')"

text \<open>\<open>%02lld\<close>.\<close>

definition two_digits :: "int \<Rightarrow> string" where
  "two_digits i = (let s = show_int i in if length s < 2 then CHR ''0'' # s else s)"

text \<open>C++ division and remainder of the total, which is not negative here, agree with \<open>div\<close> and \<open>mod\<close>.\<close>

definition duration_text :: "int \<Rightarrow> string" where
  "duration_text secs =
     (let mins = secs div 60; sec = secs mod 60
      in if mins < 60 then show_int mins @ ''m'' @ two_digits sec @ ''s''
         else
           let hrs = mins div 60; mins = mins mod 60
           in if hrs < 48 then show_int hrs @ ''h'' @ two_digits mins @ ''m''
              else let days = hrs div 24; hrs = hrs mod 24
                   in show_int days @ ''d'' @ two_digits hrs @ ''h'')"

definition human_duration :: "fp \<Rightarrow> double \<Rightarrow> string" where
  "human_duration F s =
     (if fp_less F s (fp_lit F ''120.0'') then fp_fixed F 1 s @ ''s'' else duration_text (fp_llround F s))"

definition draw_bar :: "fp \<Rightarrow> int \<Rightarrow> int \<Rightarrow> int \<Rightarrow> double \<Rightarrow> out list" where
  "draw_bar F r c w frac =
     (if w \<le> 0 then []
      else
        let frac = (if fp_less F frac (fp_of_int F 0) then fp_of_int F 0 else frac);
            frac = (if fp_less F (fp_of_int F 1) frac then fp_of_int F 1 else frac);
            filled = fp_floor F (fp_mul F frac (fp_of_int F w))
        in [Move r c, Text ''[''] @
           for_range 0 w (\<lambda>i. [if i < filled then utf8 [0xE2, 0x96, 0x88] else Text '' '']) @ [Text '']''])"

section \<open>Positions\<close>

text \<open>Every position the cursor is moved to lies on a screen of the given size.\<close>

definition on_screen :: "int \<Rightarrow> int \<Rightarrow> out list \<Rightarrow> bool" where
  "on_screen rows cols os \<longleftrightarrow> (\<forall>r c. Move r c \<in> set os \<longrightarrow> 1 \<le> r \<and> r \<le> rows \<and> 1 \<le> c \<and> c \<le> cols)"

lemma on_screen_simps [simp]:
  "on_screen rows cols []"
  "on_screen rows cols (os @ ps) \<longleftrightarrow> on_screen rows cols os \<and> on_screen rows cols ps"
  "on_screen rows cols (Move r c # os) \<longleftrightarrow> 1 \<le> r \<and> r \<le> rows \<and> 1 \<le> c \<and> c \<le> cols \<and> on_screen rows cols os"
  "on_screen rows cols (Text s # os) \<longleftrightarrow> on_screen rows cols os"
  "on_screen rows cols (Fg n # os) \<longleftrightarrow> on_screen rows cols os"
  "on_screen rows cols (Reset # os) \<longleftrightarrow> on_screen rows cols os"
  "on_screen rows cols (Clear # os) \<longleftrightarrow> on_screen rows cols os"
  "on_screen rows cols (Home # os) \<longleftrightarrow> on_screen rows cols os"
  "on_screen rows cols (utf8 bs # os) \<longleftrightarrow> on_screen rows cols os"
  by (auto simp: on_screen_def utf8_def)

lemma on_screen_if [simp]:
  "on_screen rows cols (if b then os else ps) \<longleftrightarrow> (if b then on_screen rows cols os else on_screen rows cols ps)"
  by simp

lemma on_screen_for_range:
  "(\<And>i. a \<le> i \<Longrightarrow> i < b \<Longrightarrow> on_screen rows cols (f i)) \<Longrightarrow> on_screen rows cols (for_range a b f)"
  by (auto simp: on_screen_def for_range_def)

lemma on_screen_box:
  assumes "1 \<le> r1" "r1 \<le> r2" "r2 \<le> rows" "1 \<le> c1" "c1 \<le> c2" "c2 \<le> cols"
  shows "on_screen rows cols (box r1 c1 r2 c2)"
  using assms by (auto simp: box_def intro!: on_screen_for_range)

lemma on_screen_bar:
  "1 \<le> r \<Longrightarrow> r \<le> rows \<Longrightarrow> 1 \<le> c \<Longrightarrow> c \<le> cols \<Longrightarrow> on_screen rows cols (draw_bar F r c w frac)"
  by (auto simp: draw_bar_def Let_def intro!: on_screen_for_range)

section \<open>The guards undo what they did\<close>

text \<open>
  Whichever calls failed when the guard was made, its destructor puts back the settings it found, as
  long as the calls of the destructor succeed; where taking over the terminal succeeded, line
  buffering and echo are off in between.
\<close>

lemma termios_guard_restores:
  assumes "new_TermiosGuard sys t = (g, t1)" and "tcsetattr_ok sys2" and "setfl_ok sys2"
  shows "destroy_TermiosGuard sys2 g t1 = t"
  using assms by (cases t) (auto simp: new_TermiosGuard_def destroy_TermiosGuard_def set_termios_def Let_def)

lemma termios_guard_raw:
  assumes "new_TermiosGuard sys t = (g, t1)" and "tcgetattr_ok sys" and "tcsetattr_ok sys"
  shows "c_lflag t1 AND (ICANON sys OR ECHO sys) = 0"
proof -
  have "(x AND NOT a AND NOT b) AND (a OR b) = 0" for x a b :: u32
    by (rule bit_word_eqI) (auto simp: bit_simps)
  with assms show ?thesis
    by (auto simp: new_TermiosGuard_def set_termios_def Let_def split: if_splits)
qed

definition sample_tty :: tty where
  "sample_tty = \<lparr>c_lflag = 0x8A3B, vmin = 1, vtime = 0, fl_flags = 2\<rparr>"

definition sample_tty_calls :: tty_calls where
  "sample_tty_calls = \<lparr>ICANON = 2, ECHO = 8, O_NONBLOCK = 0x800, tcgetattr_ok = True, tcsetattr_ok = True,
     getfl_ok = True, setfl_ok = True\<rparr>"

text \<open>An arithmetic on whole numbers in place of the machine's.\<close>

definition sample_fp :: fp where
  "sample_fp = \<lparr>fp_lit = (\<lambda>s. of_nat (length s)), fp_seconds = (\<lambda>ns. word_of_int (ns div 1000000000)), fp_of_u64 = id,
     fp_of_int = word_of_int, fp_add = (+), fp_mul = (*), fp_div = (div), fp_neg = uminus, fp_less = (<), fp_le = (\<le>),
     fp_exp = id, fp_log = id, fp_pow = (\<lambda>a b. a ^ unat b), fp_floor = uint, fp_llround = uint, fp_trunc = uint,
     fp_fixed = (\<lambda>_ x. decimal (unat x)), fp_show = (\<lambda>x. decimal (unat x))\<rparr>"

end
