(* ===== verification/Astro_Tui.thy ===== *)
theory Astro_Tui
  imports Astro_Chain_Store Astro_Miner Astro_Terminal
begin

text \<open>
  src/cli/tui.cpp: the terminal front end. Its state is the \<open>App\<close> with the chain, the store and the
  mining worker, together with the file system, the unread input and the key filter. Every handler
  is a function on this state; the worker thread and the main loop interleave as steps of a
  relation, in \<open>Astro_Tui_Loop\<close>. What is drawn is in \<open>Astro_Draw\<close>.

  Each handler reads each clock at most once, so the readings and the outcomes of its file operations
  are one \<open>tick\<close>: the local time as text, the system clock in seconds, the steady clock in
  nanoseconds, the file operations, whether a thread can be created, and for a worker that is waited for
  its readings of the system clock and the number of passes its search has made before it sees what is in
  the cancel flag now.
\<close>

section \<open>Input\<close>

text \<open>
  \<open>read_key\<close> over the bytes waiting on standard input, which is in non-blocking mode: \<open>-1\<close> when
  there is none, \<open>1000\<close> for an escape sequence, which swallows everything that waits behind it.
\<close>

definition read_key :: "bytes \<Rightarrow> int \<times> bytes" where
  "read_key q =
     (case q of
        [] \<Rightarrow> (-1, [])
      | ch # behind \<Rightarrow> if ch = 0x1b then (1000, []) else (uint ch, behind))"

lemma read_key_shrinks: "read_key q = (k, q') \<Longrightarrow> k \<noteq> -1 \<Longrightarrow> length q' < length q"
  by (auto simp: read_key_def split: list.splits if_splits)

function drain_input :: "bytes \<Rightarrow> bytes" where
  "drain_input q = (let (k, q') = read_key q in if k = -1 then q' else drain_input q')"
  by pat_completeness auto
termination
  by (relation "measure length") (auto dest: read_key_shrinks [OF sym])

declare drain_input.simps [simp del]

record KeyDebounce =
  last_key :: int
  last_time :: int
  min_interval_ms :: int

definition new_KeyDebounce :: "int \<Rightarrow> KeyDebounce" where
  "new_KeyDebounce now = \<lparr>last_key = -1, last_time = now, min_interval_ms = 200\<rparr>"

definition allow :: "int \<Rightarrow> int \<Rightarrow> KeyDebounce \<Rightarrow> bool \<times> KeyDebounce" where
  "allow now key d =
     (let delta = (now - last_time d) div 1000000
      in if key = last_key d \<and> delta < min_interval_ms d then (False, d)
         else (True, d\<lparr>last_key := key, last_time := now\<rparr>))"

text \<open>The ten Braille glyphs are a \<open>char\<close> array in UTF-8, three bytes each; \<open>next\<close> steps by bytes.\<close>

definition spinner_frames :: bytes where
  "spinner_frames =
     [0xE2, 0xA0, 0x8B, 0xE2, 0xA0, 0x99, 0xE2, 0xA0, 0xB9, 0xE2, 0xA0, 0xB8, 0xE2, 0xA0, 0xBC,
      0xE2, 0xA0, 0xB4, 0xE2, 0xA0, 0xA6, 0xE2, 0xA0, 0xA7, 0xE2, 0xA0, 0x87, 0xE2, 0xA0, 0x8F]"

definition spinner_next :: "nat \<Rightarrow> u8 \<times> nat" where
  "spinner_next i = (spinner_frames ! i, (i + 1) mod 10)"

lemma drain_input_empties: "drain_input q = []"
proof (induction q rule: drain_input.induct)
  case (1 q)
  obtain k q' where r: "read_key q = (k, q')" by fastforce
  show ?case
  proof (cases "k = -1")
    case True
    have "uint ch \<noteq> -1" for ch :: u8 using uint_nonnegative [of ch] by linarith
    with True r have "q' = []" by (auto simp: read_key_def split: list.splits if_splits)
    with True r show ?thesis by (simp add: drain_input.simps [of q])
  next
    case False
    with r "1.IH" [OF r [symmetric]] show ?thesis by (simp add: drain_input.simps [of q])
  qed
qed

text \<open>A key is refused exactly when it repeats the last accepted key within 200 milliseconds.\<close>

lemma allow_iff:
  "fst (allow now key d) \<longleftrightarrow> key \<noteq> last_key d \<or> min_interval_ms d \<le> (now - last_time d) div 1000000"
  by (auto simp: allow_def Let_def)

text \<open>The spinner only ever shows single bytes of a three-byte character.\<close>

lemma spinner_partial_glyphs: "i < 10 \<Longrightarrow> snd (spinner_next i) < 10 \<and> 0x80 \<le> fst (spinner_next i)"
proof -
  have "\<forall>i \<in> set [0..<10]. 0x80 \<le> spinner_frames ! i"
    by (simp add: spinner_frames_def upt_conv_Cons)
  then show "i < 10 \<Longrightarrow> ?thesis" by (simp add: spinner_next_def)
qed

section \<open>The application state\<close>

definition ellipsis :: string where
  "ellipsis = bytes_string [0xE2, 0x80, 0xA6]"

definition check_mark :: string where
  "check_mark = bytes_string [0xE2, 0x9C, 0x93]"

definition short_hash :: "Hash256 \<Rightarrow> nat \<Rightarrow> string" where
  "short_hash h keep = (let hex = toHex h in if length hex \<le> keep then hex else take keep hex @ ellipsis)"

record LogLine =
  log_text :: string
  log_color :: int

text \<open>
  Where the worker thread is: not started or joined; about to copy the chain's tip into a block;
  searching; the block stored under the mutex; about to clear \<open>mining\<close>; returned but not joined.
\<close>

datatype Worker =
    NoThread
  | Starting u32 "Transaction list"
  | Searching Chain u32 "Transaction list"
  | Publishing
  | Leaving
  | Finished

definition joinable :: "Worker \<Rightarrow> bool" where
  "joinable wk \<longleftrightarrow> wk \<noteq> NoThread"

record MiningState =
  ms_mining :: bool
  ms_cancel :: bool
  ms_done :: bool
  ms_attempts :: u64
  ms_last_lz :: u32
  ms_last_rate :: double
  ms_snap_attempts :: u64
  ms_snap_lz :: u32
  ms_snap_rate :: double
  ms_has_recent_result :: bool
  ms_last_done_time :: int
  ms_last_hash_short :: string
  ms_mined_block :: Block
  ms_worker :: Worker

definition new_MiningState :: MiningState where
  "new_MiningState =
     \<lparr>ms_mining = False, ms_cancel = False, ms_done = False, ms_attempts = 0, ms_last_lz = 0,
      ms_last_rate = 0, ms_snap_attempts = 0, ms_snap_lz = 0, ms_snap_rate = 0, ms_has_recent_result = False, ms_last_done_time = 0,
      ms_last_hash_short = [], ms_mined_block = \<lparr>header = new_BlockHeader, transactions = []\<rparr>,
      ms_worker = NoThread\<rparr>"

record App =
  app_chain :: Chain
  app_store :: BlockStore
  ui_difficulty_bits :: u32
  app_log :: "LogLine list"
  max_log :: nat
  chain_scroll :: nat
  log_scroll :: nat
  dirty :: bool
  mining :: MiningState
  toast_text :: string
  toast_color :: int
  toast_until :: int

definition new_App :: "BlockStore \<Rightarrow> App" where
  "new_App store =
     \<lparr>app_chain = new_Chain default_config, app_store = store, ui_difficulty_bits = 16, app_log = [],
      max_log = 200, chain_scroll = 0, log_scroll = 0, dirty = True, mining = new_MiningState, toast_text = [],
      toast_color = 33, toast_until = 0\<rparr>"

definition push_log :: "string \<Rightarrow> string \<Rightarrow> int \<Rightarrow> App \<Rightarrow> App" where
  "push_log tb s color app =
     (let lines = app_log app @ [\<lparr>log_text = ''['' @ tb @ ''] '' @ s, log_color = color\<rparr>];
          lines = (if max_log app < length lines then drop (length lines - max_log app) lines else lines)
      in app\<lparr>app_log := lines, dirty := True\<rparr>)"

definition toast :: "int \<Rightarrow> string \<Rightarrow> int \<Rightarrow> int \<Rightarrow> App \<Rightarrow> App" where
  "toast now s color ms app =
     app\<lparr>toast_text := s, toast_color := color, toast_until := now + ms * 1000000, dirty := True\<rparr>"

record tick =
  time_text :: string
  system_sec :: u64
  steady_ns :: int
  file_io :: io
  thread_ok :: bool
  join_clock :: "nat \<Rightarrow> u64"
  join_seen :: nat

record World =
  w_app :: App
  w_fs :: fs
  w_input :: bytes
  w_debounce :: KeyDebounce
  w_running :: bool

definition on_app :: "(App \<Rightarrow> App) \<Rightarrow> World \<Rightarrow> World" where
  "on_app f w = w\<lparr>w_app := f (w_app w)\<rparr>"

definition drain :: "World \<Rightarrow> World" where
  "drain w = w\<lparr>w_input := drain_input (w_input w)\<rparr>"

text \<open>\<open>push_log\<close> followed by \<open>toast\<close>, as most handlers end.\<close>

definition notify :: "tick \<Rightarrow> string \<Rightarrow> int \<Rightarrow> string \<Rightarrow> int \<Rightarrow> World \<Rightarrow> World" where
  "notify t s ms note color = on_app (\<lambda>app. toast (steady_ns t) note color ms (push_log (time_text t) s color app))"

section \<open>Handlers\<close>

text \<open>\<open>append_and_store\<close> on the application's chain and store.\<close>

definition app_append :: "openssl \<Rightarrow> host \<Rightarrow> io \<Rightarrow> Block \<Rightarrow> World \<Rightarrow> (crash + ValidationResult) \<times> World" where
  "app_append E H io block w =
     (case append_and_store E H io (app_store (w_app w)) block (app_chain (w_app w), w_fs w) of
        (res, c, fs) \<Rightarrow>
          (case res of Inl e \<Rightarrow> Inl (Uncaught e) | Inr r \<Rightarrow> Inr r,
           w\<lparr>w_app := (w_app w)\<lparr>app_chain := c\<rparr>, w_fs := fs\<rparr>))"

definition do_genesis :: "openssl \<Rightarrow> host \<Rightarrow> tick \<Rightarrow> World \<Rightarrow> (crash + bool) \<times> World" where
  "do_genesis E H t w =
     (if 0 < height (app_chain (w_app w))
      then (Inr False, on_app (push_log (time_text t) ''genesis already exists'' 33) w)
      else
        let w = drain w;
            genesis_block = make_genesis_block E ''Astro: Born from bytes.'' (system_sec t)
        in case app_append E H (file_io t) genesis_block w of
             (Inl c, w) \<Rightarrow> (Inl c, w)
           | (Inr validation_result, w) \<Rightarrow>
               if is_valid validation_result
               then (Inr True, notify t (''genesis appended '' @ check_mark) 4000 ''Genesis created'' 32 w)
               else (Inr False, notify t ''genesis append failed'' 4000 ''Genesis failed'' 31 w))"

definition do_append_signed_block :: "openssl \<Rightarrow> host \<Rightarrow> tick \<Rightarrow> World \<Rightarrow> (crash + bool) \<times> World" where
  "do_append_signed_block E H t w =
     (case tip (app_chain (w_app w)) of
        None \<Rightarrow> (Inr False,
          on_app (push_log (time_text t) ''cannot append: chain empty (create genesis first)'' 33) w)
      | Some tip_block \<Rightarrow>
          let nonce = 1 + (if transactions tip_block = [] then 0 else tx_nonce (last (transactions tip_block)))
          in case demo_transaction E nonce 42 ''darth vader'' of
               Inl e \<Rightarrow> (Inl (Uncaught e), w)
             | Inr transaction \<Rightarrow>
                 let new_block = build_block_from_transactions E (app_chain (w_app w)) [transaction] (system_sec t)
                 in case app_append E H (file_io t) new_block w of
                      (Inl c, w) \<Rightarrow> (Inl c, w)
                    | (Inr validation_result, w) \<Rightarrow>
                        if is_valid validation_result
                        then (Inr True, notify t (''block appended '' @ check_mark) 4000 ''Block appended'' 32 w)
                        else (Inr False, notify t ''append failed (validation error)'' 4000 ''Append failed'' 31 w))"

definition do_inspect_tip :: "openssl \<Rightarrow> tick \<Rightarrow> World \<Rightarrow> World" where
  "do_inspect_tip E t w =
     (case tip (app_chain (w_app w)) of
        None \<Rightarrow> on_app (push_log (time_text t) ''no tip (empty chain)'' 33) w
      | Some tip_block \<Rightarrow>
          on_app (push_log (time_text t) (''tip: h='' @ short_hash (hash_header E (header tip_block)) 10 @
            '' txs='' @ decimal (length (transactions tip_block))) 36) w)"

definition reset_mining :: "MiningState \<Rightarrow> MiningState" where
  "reset_mining ms =
     ms\<lparr>ms_cancel := False, ms_done := False, ms_attempts := 0, ms_last_lz := 0, ms_last_rate := 0,
        ms_snap_attempts := 0, ms_snap_lz := 0, ms_snap_rate := 0, ms_has_recent_result := False, ms_last_hash_short := [], ms_mining := True\<rparr>"

text \<open>Assigning a new thread to a \<open>std::thread\<close> that is still joinable calls \<open>std::terminate\<close>.\<close>

definition start_mining :: "openssl \<Rightarrow> tick \<Rightarrow> World \<Rightarrow> (crash + unit) \<times> World" where
  "start_mining E t w =
     (let app = w_app w in
      if ms_mining (mining app)
      then (Inr (), on_app (push_log (time_text t) ''mining already in progress'' 33) w)
      else if tip (app_chain app) = None
      then (Inr (), on_app (push_log (time_text t) ''cannot mine: chain empty (create genesis first)'' 33) w)
      else
        let w = on_app (\<lambda>app. app\<lparr>mining := reset_mining (mining app)\<rparr>) w;
            w = notify t (''mining started (difficulty '' @ decimal (unat (ui_difficulty_bits app)) @ '' bits)'')
                  3000 ''Mining started'' 36 w
        in case demo_transaction E 1 1 ''miner-reward'' of
             Inl e \<Rightarrow> (Inl (Uncaught e), w)
           | Inr tx \<Rightarrow>
               if \<not> thread_ok t then (Inl (Uncaught (SystemError ''thread'')), w)
               else if joinable (ms_worker (mining app)) then (Inl Terminated, w)
               else (Inr (), on_app (\<lambda>app. app\<lparr>mining := (mining app)\<lparr>ms_worker :=
                       Starting (ui_difficulty_bits app) [tx]\<rparr>\<rparr>) w))"

definition stop_mining :: "tick \<Rightarrow> World \<Rightarrow> World" where
  "stop_mining t w =
     (if \<not> ms_mining (mining (w_app w)) then w
      else on_app (\<lambda>app. push_log (time_text t) ''mining cancel requested'' 33
             (app\<lparr>mining := (mining app)\<lparr>ms_cancel := True\<rparr>\<rparr>)) w)"

section \<open>The worker thread\<close>

text \<open>The callback: \<open>t0\<close> is the steady clock when the thread started, \<open>now\<close> its reading in the callback.\<close>

definition worker_progress :: "fp \<Rightarrow> int \<Rightarrow> int \<Rightarrow> u64 \<Rightarrow> u32 \<Rightarrow> string \<Rightarrow> MiningState \<Rightarrow> MiningState" where
  "worker_progress F t0 now attempts lz hash_hex ms =
     ms\<lparr>ms_attempts := attempts, ms_last_lz := lz,
        ms_last_rate := (let dt = fp_seconds F (now - t0);
                             dt = (if fp_le F dt (fp_of_int F 0) then fp_lit F ''1e-9'' else dt)
                         in fp_div F (fp_of_u64 F attempts) dt),
        ms_last_hash_short := (if 10 < length hash_hex then take 10 hash_hex @ ''...'' else hash_hex)\<rparr>"

definition worker_store :: "int \<Rightarrow> Block \<Rightarrow> MiningState \<Rightarrow> MiningState" where
  "worker_store now mined ms =
     ms\<lparr>ms_mined_block := mined, ms_snap_attempts := ms_attempts ms, ms_snap_lz := ms_last_lz ms, ms_snap_rate := ms_last_rate ms,
        ms_has_recent_result := True, ms_last_done_time := now, ms_worker := Publishing\<rparr>"

definition worker_publish :: "MiningState \<Rightarrow> MiningState" where
  "worker_publish ms = ms\<lparr>ms_done := True, ms_worker := Leaving\<rparr>"

definition worker_leave :: "MiningState \<Rightarrow> MiningState" where
  "worker_leave ms = ms\<lparr>ms_mining := False, ms_worker := Finished\<rparr>"

text \<open>The steps of the worker while the main thread holds the chain \<open>c\<close>.\<close>

inductive worker_step :: "openssl \<Rightarrow> Chain \<Rightarrow> MiningState \<Rightarrow> MiningState \<Rightarrow> bool" for E c where
  begins: "ms_worker ms = Starting d txs \<Longrightarrow> worker_step E c ms (ms\<lparr>ms_worker := Searching c d txs\<rparr>)"
| progress: "ms_worker ms = Searching c0 d txs \<Longrightarrow> worker_step E c ms (worker_progress F t0 now a z hex ms)"
| found: "ms_worker ms = Searching c0 d txs \<Longrightarrow>
    mine_block E clk flag c0 txs d True 50000 = Some (Found b, pr) \<Longrightarrow>
    worker_step E c ms (worker_store now b ms)"
| thrown: "ms_worker ms = Searching c0 d txs \<Longrightarrow> ms_cancel ms \<Longrightarrow>
    worker_step E c ms (ms\<lparr>ms_worker := Leaving\<rparr>)"
| publishes: "ms_worker ms = Publishing \<Longrightarrow> worker_step E c ms (worker_publish ms)"
| leaves: "ms_worker ms = Leaving \<Longrightarrow> worker_step E c ms (worker_leave ms)"

text \<open>
  \<open>join\<close> waits until the worker has returned, which may be never (\<open>None\<close>). A worker that is still searching, or
  about to, runs \<open>mine_block\<close> to its end; nothing else sets the cancel flag while the main thread waits. The
  progress reports the worker makes meanwhile, which only change the displayed counters, are left out.
\<close>

definition search_runs_out :: "openssl \<Rightarrow> tick \<Rightarrow> Chain \<Rightarrow> u32 \<Rightarrow> Transaction list \<Rightarrow> MiningState \<Rightarrow> MiningState option" where
  "search_runs_out E t c d txs ms =
     (case mine_block E (join_clock t) (\<lambda>i. join_seen t \<le> i \<and> ms_cancel ms) c txs d True 50000 of
        None \<Rightarrow> None
      | Some (Found b, _) \<Rightarrow> Some (worker_leave (worker_publish (worker_store (steady_ns t) b ms)))
      | Some (_, _) \<Rightarrow> Some (worker_leave ms))"

fun worker_runs_out :: "openssl \<Rightarrow> tick \<Rightarrow> Chain \<Rightarrow> Worker \<Rightarrow> MiningState \<Rightarrow> MiningState option" where
  "worker_runs_out E t c NoThread ms = Some ms"
| "worker_runs_out E t c (Starting d txs) ms = search_runs_out E t c d txs ms"
| "worker_runs_out E t c (Searching c0 d txs) ms = search_runs_out E t c0 d txs ms"
| "worker_runs_out E t c Publishing ms = Some (worker_leave (worker_publish ms))"
| "worker_runs_out E t c Leaving ms = Some (worker_leave ms)"
| "worker_runs_out E t c Finished ms = Some ms"

text \<open>\<open>if (worker.joinable ()) worker.join ()\<close>.\<close>

definition join_worker :: "openssl \<Rightarrow> tick \<Rightarrow> App \<Rightarrow> App option" where
  "join_worker E t app =
     (if \<not> joinable (ms_worker (mining app)) then Some app
      else map_option (\<lambda>ms. app\<lparr>mining := ms\<lparr>ms_worker := NoThread\<rparr>\<rparr>)
             (worker_runs_out E t (app_chain app) (ms_worker (mining app)) (mining app)))"

text \<open>The first part of \<open>do_clear_store\<close>: a worker that runs is told to stop and waited for.\<close>

definition stop_and_join :: "openssl \<Rightarrow> tick \<Rightarrow> App \<Rightarrow> App option" where
  "stop_and_join E t app =
     (if ms_mining (mining app)
      then map_option (\<lambda>app. app\<lparr>mining := (mining app)\<lparr>ms_mining := False\<rparr>\<rparr>)
             (join_worker E t (app\<lparr>mining := (mining app)\<lparr>ms_cancel := True\<rparr>\<rparr>))
      else Some app)"

text \<open>
  \<open>ofstream\<close> does not throw here, so the \<open>catch\<close> branch cannot be taken; opening with \<open>trunc\<close>
  empties the file.
\<close>

definition do_clear_store :: "openssl \<Rightarrow> tick \<Rightarrow> World \<Rightarrow> (crash + bool) \<times> World" where
  "do_clear_store E t w =
     (case stop_and_join E t (w_app w) of
        None \<Rightarrow> (Inl Blocked, w)
      | Some app \<Rightarrow>
          let w = w\<lparr>w_app := app\<rparr>
          in if \<not> ofstream_open (file_io t)
             then (Inr False, notify t ''clear store: open failed'' 4000 ''Clear store failed (open)'' 31 w)
             else
               let w = w\<lparr>w_fs := (w_fs w)\<lparr>files := (files (w_fs w))(log_path (app_store (w_app w)) \<mapsto> [])\<rparr>\<rparr>;
                   w = on_app (\<lambda>app. app\<lparr>app_chain := new_Chain (config (app_chain app)), log_scroll := 0\<rparr>) w
               in (Inr True, notify t ''store cleared; chain reset'' 4000 ''Store cleared'' 33 w))"

section \<open>Waiting for the worker ends\<close>

text \<open>A worker that will still compute hashes.\<close>

fun hashing :: "Worker \<Rightarrow> bool" where
  "hashing (Starting d txs) = True"
| "hashing (Searching c d txs) = True"
| "hashing _ = False"

lemma cancelled_search_returns: "\<exists>r. mine_block E clk (\<lambda>i. n \<le> i) c txs d True 50000 = Some r"
proof -
  have "\<exists>i. search_ends E clk (\<lambda>i. n \<le> i) c txs d i" by (auto simp: search_ends_def)
  from mine_block_ends [OF this, of 50000 True] show ?thesis by auto
qed

lemma search_runs_out_returns: "ms_cancel ms \<Longrightarrow> \<exists>ms'. search_runs_out E t c d txs ms = Some ms'"
  using cancelled_search_returns [of E "join_clock t" "join_seen t" c txs d]
  by (auto simp: search_runs_out_def split: mine_outcome.split)

lemma worker_runs_out_returns:
  "ms_cancel ms \<or> \<not> hashing wk \<Longrightarrow> \<exists>ms'. worker_runs_out E t c wk ms = Some ms'"
  by (cases wk) (auto intro: search_runs_out_returns)

lemma join_worker_Some:
  assumes "join_worker E t app = Some app'"
  obtains ms where "app' = app\<lparr>mining := ms\<rparr>" and "ms_worker ms = NoThread"
proof (cases "joinable (ms_worker (mining app))")
  case True
  with assms that show ?thesis by (auto simp: join_worker_def)
next
  case False
  with assms that [of "mining app"] show ?thesis by (simp add: join_worker_def joinable_def)
qed

lemma join_worker_returns:
  assumes "ms_cancel (mining app) \<or> \<not> hashing (ms_worker (mining app))"
  obtains ms where "join_worker E t app = Some (app\<lparr>mining := ms\<rparr>)" and "ms_worker ms = NoThread"
proof -
  obtain app' where "join_worker E t app = Some app'"
    using worker_runs_out_returns [OF assms, of E t "app_chain app"]
    by (cases "joinable (ms_worker (mining app))") (auto simp: join_worker_def)
  with that show ?thesis by (metis join_worker_Some)
qed

lemma stop_and_join_returns:
  obtains ms where "stop_and_join E t app = Some (app\<lparr>mining := ms\<rparr>)" and "ms_mining (mining app) \<Longrightarrow> ms_worker ms = NoThread"
    and "\<not> ms_mining (mining app) \<Longrightarrow> ms = mining app"
proof (cases "ms_mining (mining app)")
  case True
  obtain ms where "join_worker E t (app\<lparr>mining := (mining app)\<lparr>ms_cancel := True\<rparr>\<rparr>) = Some (app\<lparr>mining := ms\<rparr>)"
    and "ms_worker ms = NoThread"
    using join_worker_returns [of "app\<lparr>mining := (mining app)\<lparr>ms_cancel := True\<rparr>\<rparr>" E t] by auto
  with True that [of "ms\<lparr>ms_mining := False\<rparr>"] show ?thesis by (simp add: stop_and_join_def)
next
  case False
  with that [of "mining app"] show ?thesis by (simp add: stop_and_join_def)
qed

text \<open>So clearing the store always returns, with the worker gone if it was running.\<close>

lemma do_clear_store_cases:
  obtains (open_failed) ms where "do_clear_store E t w =
      (Inr False, notify t ''clear store: open failed'' 4000 ''Clear store failed (open)'' 31 (on_app (\<lambda>app. app\<lparr>mining := ms\<rparr>) w))"
      and "ms_mining (mining (w_app w)) \<Longrightarrow> ms_worker ms = NoThread" and "\<not> ms_mining (mining (w_app w)) \<Longrightarrow> ms = mining (w_app w)"
  | (cleared) ms where "do_clear_store E t w =
      (Inr True, notify t ''store cleared; chain reset'' 4000 ''Store cleared'' 33
        (w\<lparr>w_fs := (w_fs w)\<lparr>files := (files (w_fs w))(log_path (app_store (w_app w)) \<mapsto> [])\<rparr>,
           w_app := (w_app w)\<lparr>mining := ms, app_chain := new_Chain (config (app_chain (w_app w))), log_scroll := 0\<rparr>\<rparr>))"
      and "ms_mining (mining (w_app w)) \<Longrightarrow> ms_worker ms = NoThread" and "\<not> ms_mining (mining (w_app w)) \<Longrightarrow> ms = mining (w_app w)"
proof -
  obtain ms where ms: "stop_and_join E t (w_app w) = Some ((w_app w)\<lparr>mining := ms\<rparr>)"
    "ms_mining (mining (w_app w)) \<Longrightarrow> ms_worker ms = NoThread" "\<not> ms_mining (mining (w_app w)) \<Longrightarrow> ms = mining (w_app w)"
    using stop_and_join_returns [of E t "w_app w"] by blast
  show ?thesis
  proof (cases "ofstream_open (file_io t)")
    case True
    with ms show ?thesis by (intro cleared [of ms]) (simp_all add: do_clear_store_def on_app_def)
  next
    case False
    with ms show ?thesis by (intro open_failed [of ms]) (simp_all add: do_clear_store_def on_app_def)
  qed
qed

end
