(* ===== verification/Astro_Draw.thy ===== *)
theory Astro_Draw
  imports Astro_Tui
begin

text \<open>
  \<open>draw\<close> of src/cli/tui.cpp: the frame that shows the application on a terminal of \<open>rows\<close> by \<open>cols\<close>
  cells, as the list of items written. The parts are in the order of the code; the row counter of the
  panel on the right is threaded through them.
\<close>

section \<open>Header\<close>

definition dash :: string where
  "dash = bytes_string [0xE2, 0x80, 0x94]"

definition middle_dot :: string where
  "middle_dot = bytes_string [0xC2, 0xB7]"

definition draw_title :: "App \<Rightarrow> out list" where
  "draw_title app =
     [Text (char_of (27 :: nat) # '']0;'' @ ''Astro TUI '' @ dash @ '' h:'' @ decimal (height (app_chain app)) @
        (if ms_mining (mining app) then '' '' @ dash @ '' Mining'' else '' '' @ dash @ '' Idle'') @ [char_of (7 :: nat)])]"

definition compact_rate :: "fp \<Rightarrow> double \<Rightarrow> string" where
  "compact_rate F r =
     (if fp_le F (fp_lit F ''1e6'') r then fp_fixed F 1 (fp_div F r (fp_lit F ''1e6'')) @ '' MH/s''
      else if fp_le F (fp_lit F ''1e3'') r then fp_fixed F 1 (fp_div F r (fp_lit F ''1e3'')) @ '' KH/s''
      else fp_fixed F 0 r @ '' H/s'')"

text \<open>
  The toast is drawn until it expires. A negative width converts to a huge \<open>size_t\<close> in \<open>substr\<close>,
  which then keeps the whole text.
\<close>

definition draw_toast :: "int \<Rightarrow> App \<Rightarrow> int \<Rightarrow> out list" where
  "draw_toast now app cols =
     (if toast_until app \<noteq> 0 \<and> now < toast_until app then
        let t = toast_text app;
            maxw = cols - 10;
            t = (if maxw < int (length t) then take (if maxw < 0 then length t else nat maxw) t else t)
        in [Move 1 (cols - int (length t) - 3), Fg (toast_color app), Text t, Reset]
      else [])"

definition draw_header :: "fp \<Rightarrow> double \<Rightarrow> int \<Rightarrow> App \<Rightarrow> int \<Rightarrow> int \<Rightarrow> out list" where
  "draw_header F avg now app header_h cols =
     box 1 1 header_h cols @
     [Move 1 3, Fg 36, Text '' ASTRO '', Reset, Move 2 3, Text (''C++ Blockchain '' @ middle_dot @ '' TUI''),
      Move 2 (cols - 38), Text ''h='', Fg 32, Text (decimal (height (app_chain app))), Reset,
      Text ('' '' @ middle_dot @ '' ''), Text (if ms_mining (mining app) then ''mining'' else ''idle''),
      Text ('' '' @ middle_dot @ '' ''),
      Fg 36, Text (compact_rate F (ms_last_rate (mining app))), Reset,
      Move 2 (cols - 20), Fg 2, Text (''fps '' @ fp_fixed F 1 avg), Reset] @
     draw_toast now app cols"

section \<open>Chain panel\<close>

definition chain_row :: "openssl \<Rightarrow> int \<Rightarrow> nat \<Rightarrow> nat \<Rightarrow> nat \<Rightarrow> Block \<Rightarrow> out list" where
  "chain_row E list_top chain_height visible_row_index i b =
     [Move (list_top + int visible_row_index) 3] @ (if i + 1 = chain_height then [Fg 32] else []) @
     [Text ''#'', Text (decimal i), Text '' h='', Text (short_hash (hash_header E (header b)) 10),
      Text '' txs='', Text (decimal (length (transactions b))), Reset]"

function chain_rows :: "openssl \<Rightarrow> Chain \<Rightarrow> int \<Rightarrow> nat \<Rightarrow> nat \<Rightarrow> nat \<Rightarrow> out list" where
  "chain_rows E c list_top list_rows i visible_row_index =
     (if i < height c then
        (case block_at c i of
           None \<Rightarrow> []
         | Some b \<Rightarrow>
             chain_row E list_top (height c) visible_row_index i b @
             (if list_rows \<le> visible_row_index + 1 then []
              else chain_rows E c list_top list_rows (i + 1) (visible_row_index + 1)))
      else [])"
  by pat_completeness auto
termination
  by (relation "measure (\<lambda>(E, c, list_top, list_rows, i, v). height c - i)") auto

declare chain_rows.simps [simp del]

text \<open>The panel is at least six rows high, so the number of list rows is positive.\<close>

definition draw_tip :: "openssl \<Rightarrow> Chain \<Rightarrow> int \<Rightarrow> int \<Rightarrow> int \<Rightarrow> out list" where
  "draw_tip E c body_top body_bot left_w =
     box body_top 1 body_bot left_w @ [Move body_top 3, Fg 36, Text '' Chain '', Reset, Move (body_top + 1) 3] @
     (case tip c of
        Some b \<Rightarrow>
          [Text ''height '', Fg 32, Text (decimal (height c)), Reset, Text ''  tip '', Fg 36,
           Text (short_hash (hash_header E (header b)) 10), Reset, Text ''  merkle '', Fg 36,
           Text (short_hash (merkle_root (header b)) 10), Reset]
      | None \<Rightarrow> [Fg 33, Text (''empty chain '' @ dash @ '' press ''), Fg 37, Text ''[G]enesis'', Reset])"

definition draw_chain :: "openssl \<Rightarrow> App \<Rightarrow> int \<Rightarrow> int \<Rightarrow> int \<Rightarrow> int \<Rightarrow> out list" where
  "draw_chain E app body_top body_h body_bot left_w =
     (let list_top = body_top + 3;
          list_rows = nat (body_h - 4);
          chain_height = height (app_chain app);
          start = (if list_rows < chain_height then chain_height - list_rows else 0)
      in draw_tip E (app_chain app) body_top body_bot left_w @
         chain_rows E (app_chain app) list_top list_rows start 0)"

section \<open>Actions panel\<close>

definition put_action :: "int \<Rightarrow> string \<Rightarrow> string \<Rightarrow> int \<Rightarrow> int \<Rightarrow> out list \<times> int" where
  "put_action left_w key desc color actions_row =
     ([Move actions_row (left_w + 4), Fg color, Text ''['', Text key, Text ''] '', Reset, Text desc], actions_row + 1)"

definition draw_actions :: "App \<Rightarrow> int \<Rightarrow> int \<Rightarrow> int \<Rightarrow> int \<Rightarrow> out list \<times> int" where
  "draw_actions app body_top body_bot left_w cols =
     (let row = body_top + 2;
          (a1, row) = put_action left_w ''G'' ''Create genesis'' 37 row;
          (a2, row) = put_action left_w ''B'' ''Append signed block'' 37 row;
          (a3, row) = put_action left_w ''M'' ''Mine PoW block'' (if tip (app_chain app) \<noteq> None then 37 else 90) row;
          (a4, row) = put_action left_w ''I'' ''Inspect tip'' 37 row;
          (a5, row) = put_action left_w ''Q'' ''Quit'' 37 row;
          row = row + 1;
          info = [Move row (left_w + 4), Fg 2, Text ''OpenSSL '', Reset, Text ''EVP | secp256k1 | SHA-256'',
                  Move (row + 1) (left_w + 4), Fg 2, Text ''Difficulty '', Reset,
                  Move (row + 2) (left_w + 6), Text (decimal (unat (ui_difficulty_bits app))), Text '' bits  [ [ - ] + ]'',
                  Move (row + 3) (left_w + 4), Fg 2, Text ''Status  '', Reset, Move (row + 4) (left_w + 6)] @
                 (if tip (app_chain app) \<noteq> None then [Fg 32, Text ''tip OK'', Reset]
                  else [Fg 33, Text ''awaiting genesis'', Reset]);
          row = row + 5 + 1;
          (a6, row) = put_action left_w ''X'' ''Clear store (truncate log)'' 31 row
      in (box body_top (left_w + 2) body_bot cols @
          [Move body_top (left_w + 4), Fg 36, Text '' Actions '', Reset] @ a1 @ a2 @ a3 @ a4 @ a5 @ info @ a6, row))"

section \<open>Mining panel\<close>

text \<open>The \<open>static\<close> variables of \<open>draw\<close>; \<open>last_peak_t\<close> is initialised when it is first reached.\<close>

record DrawStatics =
  spin :: nat
  decayed_peak :: double
  last_peak_t :: "int option"

definition new_DrawStatics :: DrawStatics where
  "new_DrawStatics = \<lparr>spin = 0, decayed_peak = 0, last_peak_t = None\<rparr>"

definition rate_khs :: "fp \<Rightarrow> double \<Rightarrow> string" where
  "rate_khs F rate = fp_fixed F 1 (fp_div F rate (fp_lit F ''1000.0'')) @ '' KH/s''"

definition draw_recent :: "fp \<Rightarrow> App \<Rightarrow> int \<Rightarrow> int \<Rightarrow> out list" where
  "draw_recent F app left_w row =
     (let ms = mining app
      in [Fg 32, Text (''last: attempts='' @ decimal (unat (ms_snap_attempts ms)) @ '' lz='' @
            decimal (unat (ms_snap_lz ms)) @ '' rate='' @ rate_khs F (ms_snap_rate ms)), Reset,
          Move row (left_w + 6), Text ''hash '', Fg 36, Text (ms_last_hash_short ms), Reset])"

text \<open>
  While mining: the spinner, the counters, a bar relative to a peak that decays with a half-life
  constant of five seconds, and the expected times to a solution.
\<close>

definition draw_progress :: "fp \<Rightarrow> int \<Rightarrow> int \<Rightarrow> App \<Rightarrow> DrawStatics \<Rightarrow> int \<Rightarrow> int \<Rightarrow> int \<Rightarrow> out list \<times> DrawStatics" where
  "draw_progress F first nowt app st left_w cols row =
     (let ms = mining app;
          (s, i) = spinner_next (spin st);
          rate = ms_last_rate ms;
          dtp = fp_seconds F (nowt - (case last_peak_t st of None \<Rightarrow> first | Some t \<Rightarrow> t));
          decay = fp_exp F (fp_div F (fp_neg F dtp) (fp_lit F ''5.0''));
          peak = fp_max F rate (fp_mul F (decayed_peak st) decay);
          bar_w = max 10 (cols - (left_w + 10) - 6);
          frac = (if fp_less F (fp_lit F ''0.0'') peak then fp_div F rate peak else fp_lit F ''0.0'');
          R = fp_max F (fp_lit F ''1e-9'') rate;
          invp = fp_pow F (fp_lit F ''2.0'') (fp_of_u64 F (ucast (ui_difficulty_bits app)));
          t50 = fp_div F (fp_mul F (fp_log F (fp_lit F ''2.0'')) invp) R;
          t90 = fp_div F (fp_mul F (fp_log F (fp_lit F ''10.0'')) invp) R
      in ([Fg 33, Text (char_of_byte s # '' attempts='' @ decimal (unat (ms_attempts ms)) @ '' lz='' @
             decimal (unat (ms_last_lz ms)) @ '' rate='' @ rate_khs F rate), Reset,
           Move row (left_w + 6), Text ''hash '', Fg 36, Text (ms_last_hash_short ms), Reset,
           Move (row + 1) (left_w + 6)] @ draw_bar F (row + 1) (left_w + 6) (min 30 bar_w) frac @
          [Text '' '', Text (human_rate F rate), Text '' (peak '', Text (human_rate F peak), Text '')'',
           Move (row + 2) (left_w + 6), Text ''ETA t50='', Fg 36, Text (human_duration F t50), Reset,
           Text ''  t90='', Fg 36, Text (human_duration F t90), Reset,
           Move (row + 3) (left_w + 6), Text ''lz='', Fg 36, Text (decimal (unat (ms_last_lz ms))), Reset],
          st\<lparr>spin := i, decayed_peak := peak, last_peak_t := Some nowt\<rparr>))"

definition draw_mining :: "fp \<Rightarrow> int \<Rightarrow> int \<Rightarrow> App \<Rightarrow> DrawStatics \<Rightarrow> int \<Rightarrow> int \<Rightarrow> int \<Rightarrow> out list \<times> App \<times> DrawStatics" where
  "draw_mining F first nowt app st left_w cols row =
     (let ms = mining app;
          head = [Move (row + 1) (left_w + 4), Fg 36, Text '' Mining '', Reset, Move (row + 2) (left_w + 6)];
          row = row + 3
      in if tip (app_chain app) = None then (head @ [Fg 33, Text ''waiting for genesis'', Reset], app, st)
         else if \<not> ms_mining ms \<and> \<not> ms_done ms then
           (let show_recent = ms_has_recent_result ms;
                within_window = (show_recent \<and> nowt - ms_last_done_time ms < 6 * 1000000000);
                app = (if show_recent \<and> \<not> within_window
                       then app\<lparr>mining := ms\<lparr>ms_has_recent_result := False\<rparr>\<rparr> else app)
            in if show_recent \<and> within_window then (head @ draw_recent F app left_w row, app, st)
               else (head @ [Fg 33, Text ''idle'', Reset], app, st))
         else if ms_mining ms then
           (let (os, st) = draw_progress F first nowt app st left_w cols row in (head @ os, app, st))
         else (head @ [Fg 32, Text ''block found (pending append)'', Reset], app, st))"

section \<open>Log panel\<close>

function log_lines :: "LogLine list \<Rightarrow> int \<Rightarrow> int \<Rightarrow> nat \<Rightarrow> nat \<Rightarrow> out list" where
  "log_lines lines top_row log_rows i log_row_index =
     (if i < length lines then
        [Move (top_row + int log_row_index) 3, Fg (log_color (lines ! i)), Text (log_text (lines ! i)), Reset] @
        (if log_rows \<le> int (log_row_index + 1) then []
         else log_lines lines top_row log_rows (i + 1) (log_row_index + 1))
      else [])"
  by pat_completeness auto
termination
  by (relation "measure (\<lambda>(lines, top_row, log_rows, i, k). length lines - i)") auto

declare log_lines.simps [simp del]

text \<open>The first line shown, with \<open>size_t\<close> arithmetic: the number of rows may be negative before the conversion.\<close>

definition log_top_index :: "App \<Rightarrow> int \<Rightarrow> nat" where
  "log_top_index app log_rows =
     (let total_logs = length (app_log app);
          max_rows = word_of_int log_rows :: u64
      in if total_logs \<le> log_scroll app then 0
         else total_logs - min total_logs (unat (word_of_nat (log_scroll app) + max_rows)))"

definition draw_log_frame :: "App \<Rightarrow> int \<Rightarrow> int \<Rightarrow> int \<Rightarrow> out list" where
  "draw_log_frame app body_bot rows cols =
     box (body_bot + 1) 1 rows cols @
     [Move (body_bot + 1) 3, Fg 36, Text '' Log '', Reset, Move (body_bot + 1) (cols - 20), Fg 2,
      Text (decimal (log_scroll app) @ ''/'' @ decimal (length (app_log app))), Reset]"

definition draw_log :: "App \<Rightarrow> int \<Rightarrow> int \<Rightarrow> int \<Rightarrow> out list" where
  "draw_log app body_bot rows cols =
     (let log_rows = rows - (body_bot + 1) - 1
      in draw_log_frame app body_bot rows cols @
         log_lines (app_log app) (body_bot + 2) log_rows (log_top_index app log_rows) 0)"

section \<open>The frame\<close>

text \<open>\<open>now\<close> and \<open>nowt\<close> are the clock readings for the toast and for the mining panel, \<open>first\<close> the one that initialises \<open>last_peak_t\<close>.\<close>

definition draw :: "openssl \<Rightarrow> fp \<Rightarrow> int \<Rightarrow> int \<Rightarrow> int \<Rightarrow> App \<Rightarrow> int \<Rightarrow> int \<Rightarrow> double \<Rightarrow> DrawStatics \<Rightarrow>
    out list \<times> App \<times> DrawStatics" where
  "draw E F now first nowt app rows cols avg st =
     (let header_h = 3;
          footer_h = 10;
          body_h = rows - header_h - footer_h - 2;
          body_h = (if body_h < 6 then 6 else body_h);
          left_w = cols * 2 div 3;
          body_top = header_h + 1;
          body_bot = body_top + body_h;
          (actions, row) = draw_actions app body_top body_bot left_w cols;
          (mine, app', st) = draw_mining F first nowt app st left_w cols row
      in ([Clear, Home] @ draw_title app @ draw_header F avg now app header_h cols @
          draw_chain E app body_top body_h body_bot left_w @ actions @ mine @ draw_log app' body_bot rows cols,
          app', st))"

section \<open>The windows into the chain and the log\<close>

text \<open>A row of the log, as \<open>draw\<close> writes it.\<close>

definition log_row :: "int \<Rightarrow> nat \<Rightarrow> LogLine \<Rightarrow> out list" where
  "log_row top_row k l = [Move (top_row + int k) 3, Fg (log_color l), Text (log_text l), Reset]"

lemma chain_rows_window:
  assumes "v < n" and "i = s + v"
  shows "chain_rows E c tp n i v =
    concat (map (\<lambda>(k, b). chain_row E tp (height c) k (s + k) b) (enumerate v (take (n - v) (drop i (blocks c)))))"
  using assms
proof (induction E c tp n i v rule: chain_rows.induct)
  case (1 E c tp n i v)
  show ?case
  proof (cases "i < height c")
    case True
    then have b: "block_at c i = Some (blocks c ! i)" and d: "drop i (blocks c) = blocks c ! i # drop (Suc i) (blocks c)"
      by (auto simp: block_at_def height_def Cons_nth_drop_Suc)
    show ?thesis
    proof (cases "n \<le> v + 1")
      case True
      with "1.prems" have "n - v = Suc 0" by simp
      with True b d "1.prems" \<open>i < height c\<close> show ?thesis by (simp add: chain_rows.simps [of E c tp n "s + v" v])
    next
      case False
      with "1.prems" have "n - v = Suc (n - (v + 1))" by simp
      with False b d "1.IH" [OF True b] "1.prems" True show ?thesis by (simp add: chain_rows.simps [of E c tp n "s + v" v])
    qed
  qed (simp add: chain_rows.simps height_def)
qed

lemma log_lines_window:
  "log_lines lines tp n i v =
    concat (map (\<lambda>(k, l). log_row tp k l) (enumerate v (take (max 1 (nat (n - int v))) (drop i lines))))"
proof (induction lines tp n i v rule: log_lines.induct)
  case (1 lines tp n i v)
  show ?case
  proof (cases "i < length lines")
    case True
    then have d: "drop i lines = lines ! i # drop (Suc i) lines" by (simp add: Cons_nth_drop_Suc)
    show ?thesis
    proof (cases "n \<le> int (v + 1)")
      case True
      then have "max 1 (nat (n - int v)) = Suc 0" by simp
      with True d \<open>i < length lines\<close> show ?thesis by (simp add: log_lines.simps [of lines tp n i v] log_row_def)
    next
      case False
      then have "max 1 (nat (n - int v)) = Suc (max 1 (nat (n - int (v + 1))))" by simp
      with False d "1.IH" [OF True] True show ?thesis by (simp add: log_lines.simps [of lines tp n i v] log_row_def)
    qed
  qed (simp add: log_lines.simps)
qed

section \<open>Positions of the parts\<close>

lemma on_screen_concat: "on_screen rows cols (concat oss) \<longleftrightarrow> (\<forall>os \<in> set oss. on_screen rows cols os)"
  by (auto simp: on_screen_def)

lemma on_screen_toast: "10 < cols \<Longrightarrow> 1 \<le> rows \<Longrightarrow> on_screen rows cols (draw_toast now app cols)"
  by (auto simp: draw_toast_def Let_def)

lemma on_screen_header: "39 \<le> cols \<Longrightarrow> 3 \<le> rows \<Longrightarrow> on_screen rows cols (draw_header F avg now app 3 cols)"
  by (simp add: draw_header_def on_screen_box on_screen_toast)

lemma on_screen_chain_rows:
  assumes "v < n" and "i = s + v" and "1 \<le> tp" and "tp + int n \<le> rows + 1" and "3 \<le> cols"
  shows "on_screen rows cols (chain_rows E c tp n i v)"
proof -
  have "k < n" if "(k, b) \<in> set (enumerate v (take (n - v) (drop i (blocks c))))" for k b
    using that assms(1) by (auto simp: in_set_enumerate_eq)
  then show ?thesis
    using assms(3-5) by (fastforce simp: chain_rows_window [OF assms(1,2)] on_screen_concat chain_row_def)
qed

lemma on_screen_chain:
  assumes "1 \<le> body_top" and "6 \<le> body_h" and "body_bot = body_top + body_h" and "body_bot \<le> rows" and "3 \<le> left_w" and "left_w \<le> cols"
  shows "on_screen rows cols (draw_chain E app body_top body_h body_bot left_w)"
proof -
  have "on_screen rows cols (chain_rows E (app_chain app) (body_top + 3) (nat (body_h - 4)) i 0)" for i
    using assms by (intro on_screen_chain_rows [where s = i]) auto
  with assms show ?thesis by (auto simp: draw_chain_def draw_tip_def Let_def on_screen_box split: option.split)
qed

lemma on_screen_actions:
  assumes "draw_actions app body_top body_bot left_w cols = (os, row)"
    and "1 \<le> body_top" and "body_top \<le> body_bot" and "body_bot \<le> rows" and "1 \<le> left_w" and "left_w + 6 \<le> cols" and "body_top + 14 \<le> rows"
  shows "on_screen rows cols os \<and> row = body_top + 15"
  using assms by (auto simp: draw_actions_def put_action_def Let_def on_screen_box)

lemma on_screen_mining:
  assumes "draw_mining F first nowt app st left_w cols row = (os, app', st')"
    and "0 \<le> row" and "row + 6 \<le> rows" and "1 \<le> left_w" and "left_w + 6 \<le> cols"
  shows "on_screen rows cols os"
  using assms
  by (auto simp: draw_mining_def draw_recent_def draw_progress_def Let_def on_screen_bar split: if_splits prod.splits)

lemma on_screen_log:
  assumes "1 \<le> body_bot" and "body_bot + 3 \<le> rows" and "21 \<le> cols"
  shows "on_screen rows cols (draw_log app body_bot rows cols)"
proof -
  have "int k < rows - (body_bot + 1) - 1"
    if "(k, l) \<in> set (enumerate 0 (take (max 1 (nat (rows - (body_bot + 1) - 1))) xs))" for k l and xs :: "LogLine list"
    using that assms by (auto simp: in_set_enumerate_eq)
  then show ?thesis
    using assms by (fastforce simp: draw_log_def draw_log_frame_def Let_def log_lines_window on_screen_concat log_row_def on_screen_box)
qed

lemma draw_mining_app:
  "draw_mining F first nowt app st left_w cols row = (os, app', st') \<Longrightarrow>
    app' = app \<or> (\<exists>ms. app' = app\<lparr>mining := ms\<rparr> \<and> ms = (mining app)\<lparr>ms_has_recent_result := False\<rparr>)"
  by (auto simp: draw_mining_def Let_def split: if_splits prod.splits)

text \<open>Drawing changes nothing of the application but the flag of a result that has been shown.\<close>

lemma draw_app:
  "draw E F now first nowt app rows cols avg st = (os, app', st') \<Longrightarrow>
    app' = app \<or> app' = app\<lparr>mining := (mining app)\<lparr>ms_has_recent_result := False\<rparr>\<rparr>"
  by (auto simp: draw_def Let_def split: prod.splits dest!: draw_mining_app)

text \<open>The heights \<open>draw\<close> gives the panels of a terminal with at least 21 rows.\<close>

lemma draw_layout:
  assumes "21 \<le> rows"
  shows "draw E F now first nowt app rows cols avg st =
    (let left_w = cols * 2 div 3;
         (actions, row) = draw_actions app 4 (rows - 11) left_w cols;
         (mine, app', st) = draw_mining F first nowt app st left_w cols row
     in ([Clear, Home] @ draw_title app @ draw_header F avg now app 3 cols @
         draw_chain E app 4 (rows - 15) (rows - 11) left_w @ actions @ mine @ draw_log app' (rows - 11) rows cols,
         app', st))"
  using assms by (simp add: draw_def Let_def algebra_simps)

section \<open>Sample\<close>

text \<open>An application with a genesis block and two log lines.\<close>

definition sample_app :: App where
  "sample_app = push_log ''12:00:01'' ''genesis appended'' 32 (push_log ''12:00:00'' ''TUI started'' 36
     ((new_App \<lparr>root_path = ''./data'', log_path = ''./data/chain.log'', log_fd = -1\<rparr>)
       \<lparr>app_chain := sample_chain\<rparr>))"

section \<open>Properties\<close>

text \<open>C25: on a terminal with at least 25 rows and 39 columns every position \<open>draw\<close> moves the cursor to
  lies on the screen, whatever the chain, the log, the toast and the worker have come to.\<close>

theorem draw_stays_on_screen:
  assumes "25 \<le> rows" and "39 \<le> cols"
  shows "on_screen rows cols (fst (draw E F now first nowt app rows cols avg st))"
proof -
  let ?left_w = "cols * 2 div 3"
  obtain actions row where a: "draw_actions app 4 (rows - 11) ?left_w cols = (actions, row)" by fastforce
  obtain mine app' st' where m: "draw_mining F first nowt app st ?left_w cols row = (mine, app', st')"
    using prod_cases3 by blast
  have a': "on_screen rows cols actions \<and> row = 19" using on_screen_actions [OF a, of rows] assms by simp
  then have m': "on_screen rows cols mine" using on_screen_mining [OF m, of rows] assms by simp
  have "on_screen rows cols (draw_chain E app 4 (rows - 15) (rows - 11) ?left_w)"
    using assms by (intro on_screen_chain) auto
  moreover have "on_screen rows cols (draw_log app' (rows - 11) rows cols)" using assms by (intro on_screen_log) auto
  ultimately show ?thesis
    using assms a' m' m by (simp add: draw_layout a Let_def on_screen_header, simp add: draw_title_def)
qed

theorem draw_stays_on_screen_witness:
  "on_screen 36 120 (fst (draw sample_openssl sample_fp 0 0 0 sample_app 36 120 0 new_DrawStatics))"
  by (rule draw_stays_on_screen) simp_all

text \<open>C26: the chain panel lists exactly the newest blocks, as many as it has rows, oldest first, each on a
  row of its own with its height, hash and number of transactions, and only the tip highlighted.\<close>

theorem chain_panel_shows_newest:
  assumes "6 \<le> body_h"
  shows "let c = app_chain app; s = height c - nat (body_h - 4) in
    draw_chain E app body_top body_h body_bot left_w = draw_tip E c body_top body_bot left_w @
      concat (map (\<lambda>(k, b). chain_row E (body_top + 3) (height c) k (s + k) b) (enumerate 0 (drop s (blocks c))))"
proof -
  let ?n = "nat (body_h - 4)" and ?c = "app_chain app"
  have start: "(if ?n < height ?c then height ?c - ?n else 0) = height ?c - ?n" by simp
  show ?thesis
    using assms chain_rows_window [of 0 ?n "height ?c - ?n" "height ?c - ?n" E ?c "body_top + 3"]
    unfolding draw_chain_def Let_def start by (simp add: height_def)
qed

theorem chain_panel_shows_newest_witness:
  "draw_chain sample_openssl sample_app 4 21 25 80 =
     draw_tip sample_openssl (app_chain sample_app) 4 25 80 @ chain_row sample_openssl 7 1 0 0 sample_genesis"
proof -
  have "blocks (app_chain sample_app) = [sample_genesis]" by (simp add: sample_app_def push_log_def sample_chain_def Let_def)
  then show ?thesis
    using chain_panel_shows_newest [of 21 sample_app sample_openssl 4 25 80] by (simp add: height_def)
qed

text \<open>On a terminal with at least 21 rows the log panel shows a window of nine lines that ends
  \<open>log_scroll\<close> lines before the newest one, and the oldest nine lines when scrolled further than that.\<close>

theorem log_panel_window:
  assumes "21 \<le> rows" and "log_scroll app < 2 ^ 63"
  shows "draw_log app (rows - 11) rows cols = draw_log_frame app (rows - 11) rows cols @
    concat (map (\<lambda>(k, l). log_row (rows - 9) k l)
      (enumerate 0 (take 9 (drop (length (app_log app) - (log_scroll app + 9)) (app_log app)))))"
proof -
  have "unat (word_of_nat (log_scroll app) + 9 :: u64) = log_scroll app + 9"
    using assms(2) by (simp add: unat_word_ariths unat_of_nat take_bit_eq_mod)
  then have "log_top_index app 9 = length (app_log app) - (log_scroll app + 9)"
    by (auto simp: log_top_index_def Let_def min_def)
  then show ?thesis by (simp add: draw_log_def Let_def log_lines_window)
qed

theorem log_panel_window_witness:
  "draw_log sample_app 25 36 120 = draw_log_frame sample_app 25 36 120 @
     log_row 27 0 \<lparr>log_text = ''[12:00:00] TUI started'', log_color = 36\<rparr> @
     log_row 27 1 \<lparr>log_text = ''[12:00:01] genesis appended'', log_color = 32\<rparr>"
  using log_panel_window [of 36 sample_app 120] by (simp add: sample_app_def push_log_def new_App_def)

end
