(* ===== verification/Astro_Tui_Loop.thy ===== *)
theory Astro_Tui_Loop
  imports Astro_Draw
begin

text \<open>
  The main loop of src/cli/tui.cpp: the poll for mined blocks, the keys, the start of the program and
  the steps by which the loop and the worker thread interleave; the ledger the program refines, its
  invariants and the properties of whole sessions.
\<close>

section \<open>The main loop\<close>

text \<open>The part of the loop that takes over a mined block; first the flags are cleared and the difficulty is set.\<close>

definition poll_ready :: "World \<Rightarrow> World" where
  "poll_ready w =
     (let w = on_app (\<lambda>app. app\<lparr>mining := (mining app)\<lparr>ms_done := False, ms_mining := False\<rparr>\<rparr>) w
      in on_app (\<lambda>app. app\<lparr>app_chain := set_difficulty_bits (ui_difficulty_bits app) (app_chain app)\<rparr>) w)"

definition poll_mining :: "openssl \<Rightarrow> host \<Rightarrow> tick \<Rightarrow> World \<Rightarrow> (crash + unit) \<times> World" where
  "poll_mining E H t w =
     (if \<not> ms_done (mining (w_app w)) then (Inr (), w)
      else
        let mined = ms_mined_block (mining (w_app w))
        in case app_append E H (file_io t) mined (poll_ready w) of
             (Inl c, w) \<Rightarrow> (Inl c, w)
           | (Inr vr, w) \<Rightarrow>
               if is_valid vr
               then (Inr (), notify t (bytes_string [0x5B, 0xE2, 0x9C, 0x85, 0x5D] @ '' mined block appended h='' @
                      short_hash (hash_header E (header mined)) 10) 5000 ''Mined block appended'' 32 w)
               else (Inr (), notify t ''[x] mined block rejected (validation failed)'' 5000
                      ''Mined block rejected'' 31 w))"

definition key_of :: "char \<Rightarrow> int" where
  "key_of c = of_char c"

definition is_key :: "int \<Rightarrow> string \<Rightarrow> bool" where
  "is_key k cs \<longleftrightarrow> k \<in> key_of ` set cs"

text \<open>A handler whose result the loop ignores, followed by \<open>drain_input\<close>.\<close>

definition then_drain :: "(crash + 'a) \<times> World \<Rightarrow> (crash + unit) \<times> World" where
  "then_drain r = (case r of (Inl c, w) \<Rightarrow> (Inl c, w) | (Inr _, w) \<Rightarrow> (Inr (), drain w))"

definition handle_key :: "openssl \<Rightarrow> host \<Rightarrow> tick \<Rightarrow> int \<Rightarrow> World \<Rightarrow> (crash + unit) \<times> World" where
  "handle_key E H t k w =
     (if is_key k ''qQ'' then (Inr (), drain (w\<lparr>w_running := False\<rparr>))
      else if is_key k ''gG'' then then_drain (do_genesis E H t w)
      else if is_key k ''bB'' then then_drain (do_append_signed_block E H t w)
      else if is_key k ''iI'' then (Inr (), drain (do_inspect_tip E t w))
      else if is_key k ''mM'' then then_drain (start_mining E t w)
      else if is_key k ''['' then
        (Inr (), if 0 < ui_difficulty_bits (w_app w)
                 then on_app (\<lambda>app. toast (steady_ns t) ''Difficulty -'' 36 2000
                        (app\<lparr>ui_difficulty_bits := ui_difficulty_bits app - 1\<rparr>)) w
                 else w)
      else if is_key k '']'' then
        (Inr (), if ui_difficulty_bits (w_app w) < 32
                 then on_app (\<lambda>app. toast (steady_ns t) ''Difficulty +'' 36 2000
                        (app\<lparr>ui_difficulty_bits := ui_difficulty_bits app + 1\<rparr>)) w
                 else w)
      else if is_key k ''j'' then
        (Inr (), if log_scroll (w_app w) + 1 < length (app_log (w_app w))
                 then on_app (\<lambda>app. app\<lparr>log_scroll := log_scroll app + 1, dirty := True\<rparr>) w else w)
      else if is_key k ''k'' then
        (Inr (), if 0 < log_scroll (w_app w)
                 then on_app (\<lambda>app. app\<lparr>log_scroll := log_scroll app - 1, dirty := True\<rparr>) w else w)
      else if is_key k ''xX'' then then_drain (do_clear_store E t w)
      else (Inr (), w))"

text \<open>One turn of the key loop: \<open>None\<close> when no key waits. The debounce clock is read before the handler's.\<close>

definition key_event :: "openssl \<Rightarrow> host \<Rightarrow> int \<Rightarrow> tick \<Rightarrow> World \<Rightarrow> ((crash + unit) \<times> World) option" where
  "key_event E H now t w =
     (let (k, q) = read_key (w_input w);
          w = w\<lparr>w_input := q\<rparr>
      in if k = -1 then None
         else let (ok, d) = allow now k (w_debounce w);
                  w = w\<lparr>w_debounce := d\<rparr>
              in if \<not> ok then Some (Inr (), w) else Some (handle_key E H t k w))"

text \<open>\<open>main\<close> up to the loop: exit code 1 without OpenSSL, or the state the loop starts in.\<close>

definition tui_start :: "openssl \<Rightarrow> host \<Rightarrow> io \<Rightarrow> string \<Rightarrow> string \<Rightarrow> string \<Rightarrow> int \<Rightarrow> fs \<Rightarrow> crash + (int + World)" where
  "tui_start E H io tb1 tb2 tb3 now fs =
     (if \<not> crypto_init E then Inr (Inl 1)
      else case new_BlockStore io ''./data'' fs of
          (Inl e, fs) \<Rightarrow> Inl (Uncaught e)
        | (Inr store, fs) \<Rightarrow>
            (case restore_from_store E H io store fs (app_chain (new_App store)) of
               (Inl e, _) \<Rightarrow> Inl (Uncaught e)
             | (Inr _, c) \<Rightarrow>
                 let app = (new_App store)\<lparr>app_chain := c\<rparr>;
                     app = (if 0 < height c then push_log tb1 ''restored chain from ./data'' 36 app else app);
                     app = push_log tb2 ''TUI started'' 36 app;
                     app = push_log tb3 ''Press G to create genesis'' 33 app
                 in Inr (Inr \<lparr>w_app = app, w_fs = fs, w_input = [], w_debounce = new_KeyDebounce now,
                              w_running = True\<rparr>)))"

text \<open>The handler of \<open>SIGINT\<close>.\<close>

definition on_sigint :: "World \<Rightarrow> World" where
  "on_sigint w = w\<lparr>w_running := False\<rparr>"

declare on_sigint_def [simp]

text \<open>
  The steps of the running program: the worker, a poll for a mined block, a key, new input, a change
  of the window's size, a redraw, a signal. \<open>io_ok\<close> restricts the outcomes of file operations that are considered.
\<close>

inductive tui_step :: "openssl \<Rightarrow> host \<Rightarrow> (io \<Rightarrow> bool) \<Rightarrow> World \<Rightarrow> World \<Rightarrow> bool" for E H io_ok where
  worker: "worker_step E (app_chain (w_app w)) (mining (w_app w)) ms \<Longrightarrow>
    tui_step E H io_ok w (on_app (\<lambda>app. app\<lparr>mining := ms\<rparr>) w)"
| poll: "poll_mining E H t w = (Inr (), w') \<Longrightarrow> io_ok (file_io t) \<Longrightarrow> tui_step E H io_ok w w'"
| key: "key_event E H now t w = Some (Inr (), w') \<Longrightarrow> io_ok (file_io t) \<Longrightarrow> tui_step E H io_ok w w'"
| input: "tui_step E H io_ok w (w\<lparr>w_input := w_input w @ bs\<rparr>)"
| resized: "tui_step E H io_ok w (on_app (\<lambda>app. app\<lparr>dirty := True\<rparr>) w)"
| drawn: "draw E F now first nowt (w_app w) rows cols avg st = (os, app, st') \<Longrightarrow>
    tui_step E H io_ok w (w\<lparr>w_app := app\<lparr>dirty := False\<rparr>\<rparr>)"
| signal: "tui_step E H io_ok w (on_sigint w)"

inductive tui_reachable :: "openssl \<Rightarrow> host \<Rightarrow> (io \<Rightarrow> bool) \<Rightarrow> fs \<Rightarrow> World \<Rightarrow> bool" for E H io_ok fs where
  start: "tui_start E H io tb1 tb2 tb3 now fs = Inr (Inr w) \<Longrightarrow> io_ok io \<Longrightarrow> tui_reachable E H io_ok fs w"
| step: "tui_reachable E H io_ok fs w \<Longrightarrow> tui_step E H io_ok w w' \<Longrightarrow> tui_reachable E H io_ok fs w'"

inductive_cases worker_stepE: "worker_step E c ms ms'"
inductive_cases tui_stepE: "tui_step E H io_ok w w'"

section \<open>The ledger behind the interface\<close>

text \<open>
  What the interface does to the chain and its file, without the interface: it offers blocks, changes
  the difficulty, or starts over.
\<close>

inductive ledger_step :: "openssl \<Rightarrow> host \<Rightarrow> (io \<Rightarrow> bool) \<Rightarrow> BlockStore \<Rightarrow> Chain \<times> fs \<Rightarrow> Chain \<times> fs \<Rightarrow> bool"
  for E H io_ok store where
  offer: "append_and_store E H io store b (c, fs) = (Inr r, c', fs') \<Longrightarrow> io_ok io \<Longrightarrow>
    ledger_step E H io_ok store (c, fs) (c', fs')"
| retune: "ledger_step E H io_ok store (c, fs) (set_difficulty_bits d c, fs)"
| clear: "ledger_step E H io_ok store (c, fs)
    (new_Chain (config c), fs\<lparr>files := (files fs)(log_path store \<mapsto> [])\<rparr>)"

definition ledger :: "World \<Rightarrow> Chain \<times> fs" where
  "ledger w = (app_chain (w_app w), w_fs w)"

abbreviation ledger_steps :: "openssl \<Rightarrow> host \<Rightarrow> (io \<Rightarrow> bool) \<Rightarrow> World \<Rightarrow> World \<Rightarrow> bool" where
  "ledger_steps E H io_ok w w' \<equiv>
     app_store (w_app w') = app_store (w_app w) \<and>
     (ledger_step E H io_ok (app_store (w_app w)))\<^sup>*\<^sup>* (ledger w) (ledger w')"

lemma app_fields [simp]:
  "app_chain (push_log tb s color app) = app_chain app" "app_store (push_log tb s color app) = app_store app"
  "ui_difficulty_bits (push_log tb s color app) = ui_difficulty_bits app"
  "mining (push_log tb s color app) = mining app" "max_log (push_log tb s color app) = max_log app"
  "log_scroll (push_log tb s color app) = log_scroll app"
  "app_chain (toast now s color ms app) = app_chain app" "app_store (toast now s color ms app) = app_store app"
  "ui_difficulty_bits (toast now s color ms app) = ui_difficulty_bits app"
  "mining (toast now s color ms app) = mining app" "max_log (toast now s color ms app) = max_log app"
  "log_scroll (toast now s color ms app) = log_scroll app" "app_log (toast now s color ms app) = app_log app"
  by (simp_all add: push_log_def toast_def Let_def)

lemma world_fields [simp]:
  "w_app (on_app f w) = f (w_app w)" "w_fs (on_app f w) = w_fs w"
  "w_app (drain w) = w_app w" "w_fs (drain w) = w_fs w"
  "w_fs (notify t s ms note color w) = w_fs w"
  "app_chain (w_app (notify t s ms note color w)) = app_chain (w_app w)"
  "app_store (w_app (notify t s ms note color w)) = app_store (w_app w)"
  "ui_difficulty_bits (w_app (notify t s ms note color w)) = ui_difficulty_bits (w_app w)"
  "mining (w_app (notify t s ms note color w)) = mining (w_app w)"
  "max_log (w_app (notify t s ms note color w)) = max_log (w_app w)"
  "log_scroll (w_app (notify t s ms note color w)) = log_scroll (w_app w)"
  "app_log (w_app (notify t s ms note color w)) = app_log (push_log (time_text t) s color (w_app w))"
  by (simp_all add: on_app_def drain_def notify_def)

lemma ledger_simps [simp]:
  "ledger (drain w) = ledger w" "ledger (notify t s ms note color w) = ledger w"
  "ledger (w\<lparr>w_input := q\<rparr>) = ledger w" "ledger (w\<lparr>w_debounce := d\<rparr>) = ledger w"
  "ledger (w\<lparr>w_running := r\<rparr>) = ledger w" "ledger (on_app f w) = (app_chain (f (w_app w)), w_fs w)"
  by (simp_all add: ledger_def)

lemma poll_ready_fields [simp]:
  "app_chain (w_app (poll_ready w)) = set_difficulty_bits (ui_difficulty_bits (w_app w)) (app_chain (w_app w))"
  "mining (w_app (poll_ready w)) = (mining (w_app w))\<lparr>ms_done := False, ms_mining := False\<rparr>"
  "app_store (w_app (poll_ready w)) = app_store (w_app w)" "w_fs (poll_ready w) = w_fs w"
  "ledger (poll_ready w) = (set_difficulty_bits (ui_difficulty_bits (w_app w)) (app_chain (w_app w)), w_fs w)"
  by (simp_all add: poll_ready_def)

text \<open>A key was refused by the key filter or handled.\<close>

lemma key_eventE:
  assumes "key_event E H now t w = Some (Inr (), w')"
  obtains k q d where "read_key (w_input w) = (k, q)" and "k \<noteq> -1"
    and "w' = w\<lparr>w_input := q, w_debounce := d\<rparr> \<or> handle_key E H t k (w\<lparr>w_input := q, w_debounce := d\<rparr>) = (Inr (), w')"
proof -
  obtain k q where k: "read_key (w_input w) = (k, q)" by fastforce
  obtain ok d where d: "allow now k (w_debounce w) = (ok, d)" by fastforce
  show ?thesis
    using that [OF k, of d] assms k d by (auto simp: key_event_def Let_def split: if_splits)
qed

lemma app_append_ledger:
  assumes "app_append E H io b w = (Inr r, w')" and "io_ok io"
  shows "ledger_step E H io_ok (app_store (w_app w)) (ledger w) (ledger w') \<and>
    (\<exists>c. w_app w' = (w_app w)\<lparr>app_chain := c\<rparr>)"
  using assms
  by (auto simp: app_append_def ledger_def intro: ledger_step.offer split: prod.splits sum.splits)

lemma do_genesis_ledger:
  assumes "do_genesis E H t w = (Inr r, w')" and "io_ok (file_io t)"
  shows "ledger_steps E H io_ok w w'"
  using assms app_append_ledger [where w = "drain w" and io = "file_io t" and io_ok = io_ok]
  by (fastforce simp: do_genesis_def ledger_def [of w] Let_def split: if_splits prod.splits sum.splits)

lemma do_append_signed_block_ledger:
  assumes "do_append_signed_block E H t w = (Inr r, w')" and "io_ok (file_io t)"
  shows "ledger_steps E H io_ok w w'"
  using assms app_append_ledger [where w = w and io = "file_io t" and io_ok = io_ok]
  by (fastforce simp: do_append_signed_block_def ledger_def [of w] Let_def
      split: if_splits prod.splits sum.splits option.splits)

lemma poll_mining_ledger:
  assumes "poll_mining E H t w = (Inr (), w')" and "io_ok (file_io t)"
  shows "ledger_steps E H io_ok w w'"
proof (cases "ms_done (mining (w_app w))")
  case True
  let ?w = "poll_ready w"
  from True assms obtain vr w2 where a: "app_append E H (file_io t) (ms_mined_block (mining (w_app w))) ?w = (Inr vr, w2)"
    and w': "ledger w' = ledger w2" "app_store (w_app w') = app_store (w_app w2)"
    by (auto simp: poll_mining_def Let_def split: prod.splits sum.splits if_splits)
  have 1: "ledger_step E H io_ok (app_store (w_app w)) (ledger w) (ledger ?w)"
    by (simp add: ledger_def [of w] ledger_step.retune)
  have 2: "ledger_step E H io_ok (app_store (w_app w)) (ledger ?w) (ledger w2) \<and>
      app_store (w_app w2) = app_store (w_app w)"
    using app_append_ledger [OF a, of io_ok] assms(2) by auto
  let ?R = "ledger_step E H io_ok (app_store (w_app w))"
  have "?R\<^sup>*\<^sup>* (ledger w) (ledger w2)"
    by (rule converse_rtranclp_into_rtranclp [of ?R, OF 1]) (rule r_into_rtranclp [of ?R, OF conjunct1 [OF 2]])
  with w' 2 show ?thesis by simp
qed (use assms in \<open>simp add: poll_mining_def\<close>)

lemma start_mining_ledger:
  assumes "start_mining E t w = (Inr (), w')"
  shows "ledger w' = ledger w \<and> app_store (w_app w') = app_store (w_app w)"
  using assms by (auto simp: start_mining_def ledger_def [of w] Let_def split: if_splits sum.splits)

lemma do_clear_store_ledger:
  assumes "do_clear_store E t w = (r, w')"
  shows "ledger_steps E H io_ok w w'"
  using ledger_step.clear [of E H io_ok "app_store (w_app w)" "app_chain (w_app w)" "w_fs w"] assms
  by (cases rule: do_clear_store_cases [of E t w]) (auto simp: ledger_def)

lemma do_inspect_tip_fields [simp]:
  "app_chain (w_app (do_inspect_tip E t w)) = app_chain (w_app w)" "w_fs (do_inspect_tip E t w) = w_fs w"
  "app_store (w_app (do_inspect_tip E t w)) = app_store (w_app w)"
  by (simp_all add: do_inspect_tip_def split: option.split)

lemma then_drain_Inr:
  "then_drain r = (Inr (), w') \<longleftrightarrow> (\<exists>x w. r = (Inr x, w) \<and> w' = drain w)"
  by (auto simp: then_drain_def split: prod.splits sum.splits)

lemma handle_key_ledger:
  assumes "handle_key E H t k w = (Inr (), w')" and "io_ok (file_io t)"
  shows "ledger_steps E H io_ok w w'"
proof -
  consider "\<exists>r w2. do_genesis E H t w = (Inr r, w2) \<and> w' = drain w2"
    | "\<exists>r w2. do_append_signed_block E H t w = (Inr r, w2) \<and> w' = drain w2"
    | "\<exists>w2. start_mining E t w = (Inr (), w2) \<and> w' = drain w2"
    | "\<exists>r w2. do_clear_store E t w = (r, w2) \<and> w' = drain w2"
    | "ledger w' = ledger w \<and> app_store (w_app w') = app_store (w_app w)"
    unfolding ledger_def using assms(1)
    by (auto simp: handle_key_def then_drain_Inr split: if_splits prod.splits)
  then show ?thesis
    using do_genesis_ledger [where w = w and t = t] do_append_signed_block_ledger [where w = w and t = t]
      do_clear_store_ledger [where w = w and t = t and E = E] start_mining_ledger [of E t w] assms(2)
    by cases fastforce+
qed

lemma key_event_ledger:
  assumes "key_event E H now t w = Some (Inr (), w')" and "io_ok (file_io t)"
  shows "ledger_steps E H io_ok w w'"
  using assms(1)
proof (rule key_eventE)
  fix k q d
  let ?w = "w\<lparr>w_input := q, w_debounce := d\<rparr>"
  assume "w' = ?w \<or> handle_key E H t k ?w = (Inr (), w')"
  then show ?thesis
    using handle_key_ledger [where w = ?w and t = t] assms(2) by (auto simp: ledger_def [of w])
qed

text \<open>The interface is a refinement of the ledger: worker, drawing and input are invisible there.\<close>

lemma tui_step_ledger: "tui_step E H io_ok w w' \<Longrightarrow> ledger_steps E H io_ok w w'"
  by (erule tui_stepE)
    (auto simp: ledger_def dest: poll_mining_ledger [where io_ok = io_ok] key_event_ledger [where io_ok = io_ok] draw_app)

section \<open>Invariants of the ledger\<close>

lemma ledger_step_reachable:
  "ledger_step E H io_ok store l l' \<Longrightarrow> chain_reachable E (fst l) \<Longrightarrow> chain_reachable E (fst l')"
proof (induction rule: ledger_step.induct)
  case (offer io b c fs r c' fs')
  then show ?case using append_and_store_reachable [of E c H io store b fs] by simp
next
  case (retune c fs d)
  then show ?case using chain_reachable.step [OF _ chain_step.difficulty] by simp
qed (simp add: chain_reachable.start)

lemma ledger_steps_reachable:
  "(ledger_step E H io_ok store)\<^sup>*\<^sup>* l l' \<Longrightarrow> chain_reachable E (fst l) \<Longrightarrow> chain_reachable E (fst l')"
  by (induction rule: rtranclp_induct) (auto intro: ledger_step_reachable)

text \<open>With reliable files, the log holds exactly the blocks of the chain, as long as they can be stored.\<close>

definition logged :: "openssl \<Rightarrow> host \<Rightarrow> BlockStore \<Rightarrow> Chain \<times> fs \<Rightarrow> bool" where
  "logged E H store = (\<lambda>(c, fs). list_all (storable H) (blocks c) \<longrightarrow> log_holds E H store fs (blocks c))"

lemma ledger_step_logged:
  "ledger_step E H (\<lambda>io. io = reliable_io) store l l' \<Longrightarrow> logged E H store l \<Longrightarrow> logged E H store l'"
proof (induction rule: ledger_step.induct)
  case (offer io b c fs r c' fs')
  then have "append_and_store E H reliable_io store b (c, fs) = (Inr r, c', fs')" by simp
  with offer.prems show ?case
    by (cases rule: append_and_store_cases [of E c b H reliable_io store fs])
      (auto simp: logged_def reliable_append intro: file_log.holds_put)
next
  case (retune c fs d)
  then show ?case by (simp add: logged_def set_difficulty_bits_def)
next
  case (clear c fs)
  then show ?case by (simp add: logged_def new_Chain_def log_holds_def)
qed

lemma ledger_steps_logged:
  "(ledger_step E H (\<lambda>io. io = reliable_io) store)\<^sup>*\<^sup>* l l' \<Longrightarrow> logged E H store l \<Longrightarrow> logged E H store l'"
  by (induction rule: rtranclp_induct) (auto intro: ledger_step_logged)

section \<open>Invariants of the interface\<close>

definition ui_ok :: "App \<Rightarrow> bool" where
  "ui_ok app \<longleftrightarrow> max_log app = 200 \<and> length (app_log app) \<le> 200 \<and> ui_difficulty_bits app \<le> 32 \<and>
     (log_scroll app = 0 \<or> log_scroll app < length (app_log app))"

lemma ui_ok_simps [simp]:
  "ui_ok (toast now s color ms app) = ui_ok app" "ui_ok (app\<lparr>app_chain := c\<rparr>) = ui_ok app"
  "ui_ok (app\<lparr>mining := m\<rparr>) = ui_ok app" "ui_ok (app\<lparr>dirty := b\<rparr>) = ui_ok app"
  by (simp_all add: ui_ok_def)

lemma ui_ok_push_log [intro]: "ui_ok app \<Longrightarrow> ui_ok (push_log tb s color app)"
  by (auto simp: ui_ok_def push_log_def Let_def)

lemma ui_ok_world:
  "ui_ok (w_app w) \<Longrightarrow> ui_ok (w_app (notify t s ms note color w))"
  by (auto simp: notify_def on_app_def)

lemma ui_ok_new: "ui_ok (new_App store)"
  by (simp add: ui_ok_def new_App_def)

lemma ui_ok_scroll_reset: "ui_ok app \<Longrightarrow> ui_ok (app\<lparr>app_chain := c, log_scroll := 0\<rparr>)"
  by (simp add: ui_ok_def)

lemma ui_ok_difficulty:
  "ui_ok app \<Longrightarrow> 0 < ui_difficulty_bits app \<Longrightarrow> ui_ok (app\<lparr>ui_difficulty_bits := ui_difficulty_bits app - 1\<rparr>)"
  "ui_ok app \<Longrightarrow> ui_difficulty_bits app < 32 \<Longrightarrow> ui_ok (app\<lparr>ui_difficulty_bits := ui_difficulty_bits app + 1\<rparr>)"
proof -
  show "ui_ok app \<Longrightarrow> 0 < ui_difficulty_bits app \<Longrightarrow> ui_ok (app\<lparr>ui_difficulty_bits := ui_difficulty_bits app - 1\<rparr>)"
    by (auto simp: ui_ok_def word_le_nat_alt word_less_nat_alt unat_sub word_unat_eq_iff)
  show "ui_ok app \<Longrightarrow> ui_difficulty_bits app < 32 \<Longrightarrow> ui_ok (app\<lparr>ui_difficulty_bits := ui_difficulty_bits app + 1\<rparr>)"
    by (simp add: ui_ok_def inc_le)
qed

lemma app_append_ui:
  "app_append E H io b w = (r, w') \<Longrightarrow> ui_ok (w_app w) \<Longrightarrow> ui_ok (w_app w')"
  by (auto simp: app_append_def split: prod.splits)

lemmas ui_ok_intros = ui_ok_push_log ui_ok_world ui_ok_scroll_reset ui_ok_difficulty

lemma do_genesis_ui:
  assumes "do_genesis E H t w = (r, w')" and "ui_ok (w_app w)"
  shows "ui_ok (w_app w')"
  using assms app_append_ui [where w = "drain w" and io = "file_io t"]
  by (fastforce simp: do_genesis_def Let_def intro: ui_ok_intros split: if_splits prod.splits sum.splits)

lemma do_append_signed_block_ui:
  assumes "do_append_signed_block E H t w = (r, w')" and "ui_ok (w_app w)"
  shows "ui_ok (w_app w')"
  using assms app_append_ui [where w = w and io = "file_io t"]
  by (fastforce simp: do_append_signed_block_def Let_def intro: ui_ok_intros
      split: if_splits prod.splits sum.splits option.splits)

lemma poll_mining_ui:
  assumes "poll_mining E H t w = (r, w')" and "ui_ok (w_app w)"
  shows "ui_ok (w_app w')"
proof (cases "ms_done (mining (w_app w))")
  case True
  let ?w = "poll_ready w"
  obtain q w2 where a: "app_append E H (file_io t) (ms_mined_block (mining (w_app w))) ?w = (q, w2)" by fastforce
  have "ui_ok (w_app w2)" using app_append_ui [OF a] assms(2) by (simp add: poll_ready_def)
  with True a assms(1) show ?thesis
    by (auto simp: poll_mining_def Let_def intro: ui_ok_world split: sum.splits if_splits)
qed (use assms in \<open>simp add: poll_mining_def\<close>)

lemma start_mining_ui:
  "start_mining E t w = (r, w') \<Longrightarrow> ui_ok (w_app w) \<Longrightarrow> ui_ok (w_app w')"
  by (auto simp: start_mining_def Let_def intro!: ui_ok_push_log ui_ok_world split: if_splits sum.splits)

lemma do_clear_store_ui:
  assumes "do_clear_store E t w = (r, w')" and "ui_ok (w_app w)"
  shows "ui_ok (w_app w')"
proof -
  have ms: "ui_ok ((w_app w)\<lparr>mining := ms\<rparr>)" for ms using assms(2) by (simp add: ui_ok_def)
  show ?thesis
    using assms(1) ui_ok_scroll_reset [OF ms]
    by (cases rule: do_clear_store_cases [of E t w]) (auto intro!: ui_ok_world simp: ms assms(2))
qed

lemma do_inspect_tip_ui: "ui_ok (w_app w) \<Longrightarrow> ui_ok (w_app (do_inspect_tip E t w))"
  by (auto simp: do_inspect_tip_def split: option.split)

lemma ui_ok_scroll:
  "ui_ok app \<Longrightarrow> log_scroll app + 1 < length (app_log app) \<Longrightarrow> ui_ok (app\<lparr>log_scroll := log_scroll app + 1, dirty := True\<rparr>)"
  "ui_ok app \<Longrightarrow> 0 < log_scroll app \<Longrightarrow> ui_ok (app\<lparr>log_scroll := log_scroll app - 1, dirty := True\<rparr>)"
  by (auto simp: ui_ok_def)

lemma handle_key_ui:
  assumes "handle_key E H t k w = (Inr (), w')" and "ui_ok (w_app w)"
  shows "ui_ok (w_app w')"
proof -
  consider "\<exists>r w2. do_genesis E H t w = (Inr r, w2) \<and> w' = drain w2"
    | "\<exists>r w2. do_append_signed_block E H t w = (Inr r, w2) \<and> w' = drain w2"
    | "\<exists>r w2. start_mining E t w = (Inr r, w2) \<and> w' = drain w2"
    | "\<exists>r w2. do_clear_store E t w = (r, w2) \<and> w' = drain w2"
    | "ui_ok (w_app w')"
    using assms ui_ok_scroll [OF assms(2)] ui_ok_difficulty [OF assms(2)] do_inspect_tip_ui [OF assms(2), of E t]
    by (auto simp: handle_key_def then_drain_Inr split: if_splits prod.splits)
  then show ?thesis
    by cases (use assms(2) do_genesis_ui do_append_signed_block_ui start_mining_ui do_clear_store_ui in fastforce)+
qed

lemma key_event_ui:
  assumes "key_event E H now t w = Some (Inr (), w')" and "ui_ok (w_app w)"
  shows "ui_ok (w_app w')"
  by (rule key_eventE [OF assms(1)]) (use assms(2) in \<open>auto dest: handle_key_ui\<close>)

lemma tui_step_ui: "tui_step E H io_ok w w' \<Longrightarrow> ui_ok (w_app w) \<Longrightarrow> ui_ok (w_app w')"
  by (erule tui_stepE) (auto dest: poll_mining_ui key_event_ui draw_app)

section \<open>The start\<close>

lemma tui_startD:
  assumes "tui_start E H io tb1 tb2 tb3 now fs = Inr (Inr w)"
  obtains store fs' u c where "crypto_init E" and "new_BlockStore io ''./data'' fs = (Inr store, fs')"
    and "restore_from_store E H io store fs' (new_Chain default_config) = (Inr u, c)"
    and "app_chain (w_app w) = c" and "app_store (w_app w) = store" and "w_fs w = fs'" and "ui_ok (w_app w)"
proof -
  have new: "app_chain (new_App store) = new_Chain default_config" "app_store (new_App store) = store" for store
    by (simp_all add: new_App_def)
  from assms obtain store fs' u c where "crypto_init E" and "new_BlockStore io ''./data'' fs = (Inr store, fs')"
    and "restore_from_store E H io store fs' (new_Chain default_config) = (Inr u, c)"
    and w: "w_app w = push_log tb3 ''Press G to create genesis'' 33 (push_log tb2 ''TUI started'' 36
      (if 0 < height c then push_log tb1 ''restored chain from ./data'' 36 ((new_App store)\<lparr>app_chain := c\<rparr>)
       else (new_App store)\<lparr>app_chain := c\<rparr>))" and "w_fs w = fs'"
    by (auto simp: tui_start_def Let_def new split: if_splits prod.splits sum.splits)
  moreover have "ui_ok (w_app w)" unfolding w by (auto simp: ui_ok_new intro!: ui_ok_push_log)
  moreover have "app_chain (w_app w) = c" "app_store (w_app w) = store" unfolding w by (simp_all add: new)
  ultimately show ?thesis using that by blast
qed

lemma tui_reachable_invariant:
  assumes "tui_reachable E H io_ok fs w"
  shows "chain_reachable E (app_chain (w_app w)) \<and> ui_ok (w_app w)"
  using assms
proof (induction rule: tui_reachable.induct)
  case (start io tb1 tb2 tb3 now w)
  from start(1) show ?case
    by (rule tui_startD) (use restore_from_store_reachable [OF chain_reachable.start, of E H] in \<open>metis snd_conv\<close>)
next
  case (step w w')
  then show ?case
    using ledger_steps_reachable [of E H io_ok "app_store (w_app w)" "ledger w" "ledger w'"]
      tui_step_ledger [OF step.hyps(2)] tui_step_ui [OF step.hyps(2)]
    by (auto simp: ledger_def)
qed

lemma tui_reachable_logged:
  assumes "tui_reachable E H (\<lambda>io. io = reliable_io) fs w" and "files fs ''./data/chain.log'' = None"
  shows "app_store (w_app w) = data_store \<and> crypto_init E \<and> logged E H data_store (ledger w)"
  using assms(1)
proof (induction rule: tui_reachable.induct)
  case (start io tb1 tb2 tb3 now w)
  from start(1) obtain store fs' u c where ini: "crypto_init E" and st: "new_BlockStore io ''./data'' fs = (Inr store, fs')"
    and re: "restore_from_store E H io store fs' (new_Chain default_config) = (Inr u, c)"
    and w: "app_chain (w_app w) = c" "app_store (w_app w) = store" "w_fs w = fs'"
    by (rule tui_startD)
  from st start(2) assms(2) have store: "store = data_store" and log: "files fs' ''./data/chain.log'' = Some []"
    using reliable_new_store by auto
  then have "log_holds E H store fs' []" by (simp add: log_holds_def)
  with restore_logged [OF this] re start(2) have "blocks c = []" by auto
  with w store log ini show ?case by (simp add: logged_def ledger_def log_holds_def)
next
  case (step w w')
  then show ?case using tui_step_ledger [OF step.hyps(2)] ledger_steps_logged by metis
qed

text \<open>A program started on the file of another restores the blocks the other had.\<close>

lemma restart_restores:
  assumes "crypto_init E" and "logged E H data_store (ledger w)" and "list_all (storable H) (blocks (app_chain (w_app w)))"
    and "chain_ok E (blocks (app_chain (w_app w)))"
  obtains w' where "tui_start E H reliable_io tb1 tb2 tb3 now (w_fs w) = Inr (Inr w')"
    and "blocks (app_chain (w_app w')) = blocks (app_chain (w_app w))"
    and "app_store (w_app w') = data_store" and "logged E H data_store (ledger w')"
proof -
  let ?bs = "blocks (app_chain (w_app w))"
  from assms(2,3) have log: "log_holds E H data_store (w_fs w) ?bs" by (simp add: logged_def ledger_def)
  obtain fs' where st: "new_BlockStore reliable_io ''./data'' (w_fs w) = (Inr data_store, fs')"
    using reliable_new_store_ok by blast
  with log reliable_new_store [OF st] have log': "log_holds E H data_store fs' ?bs" by (simp add: log_holds_def)
  then have "restore_from_store E H reliable_io data_store fs' (new_Chain default_config) =
      (Inr (), \<lparr>config = default_config, blocks = ?bs\<rparr>)" using assms(4) by (rule restore_logged)
  with assms(1) st have "\<exists>w'. tui_start E H reliable_io tb1 tb2 tb3 now (w_fs w) = Inr (Inr w') \<and>
      app_chain (w_app w') = \<lparr>config = default_config, blocks = ?bs\<rparr> \<and> app_store (w_app w') = data_store \<and> w_fs w' = fs'"
    by (simp add: tui_start_def new_App_def Let_def)
  with log' that show ?thesis by (auto simp: logged_def ledger_def)
qed

section \<open>Appending through the interface\<close>

lemma app_append_valid:
  assumes "content_ok E (blocks (app_chain (w_app w))) b"
    and "pow_ok E (config (app_chain (w_app w))) (blocks (app_chain (w_app w))) b"
    and "ofstream_open io" and "ofstream_good io"
  shows "app_append E H io b w =
    (Inr accept, w\<lparr>w_app := (w_app w)\<lparr>app_chain := (app_chain (w_app w))\<lparr>blocks := blocks (app_chain (w_app w)) @ [b]\<rparr>\<rparr>,
       w_fs := store_put E H io (app_store (w_app w)) b (w_fs w)\<rparr>)"
  using append_and_store_valid [OF assms, of H "app_store (w_app w)" "w_fs w"] by (simp add: app_append_def)

lemma do_genesis_ok:
  assumes "blocks (app_chain (w_app w)) = []" and "\<not> enforce_genesis_pow (config (app_chain (w_app w)))"
    and "ofstream_open (file_io t)" and "ofstream_good (file_io t)"
  obtains w' where "do_genesis E H t w = (Inr True, w')"
    and "blocks (app_chain (w_app w')) = [make_genesis_block E ''Astro: Born from bytes.'' (system_sec t)]"
    and "mining (w_app w') = mining (w_app w)" and "ui_difficulty_bits (w_app w') = ui_difficulty_bits (w_app w)"
    and "w_debounce w' = w_debounce w" and "config (app_chain (w_app w')) = config (app_chain (w_app w))"
proof
  let ?g = "make_genesis_block E ''Astro: Born from bytes.'' (system_sec t)"
  have a: "app_append E H (file_io t) ?g (drain w) = (Inr accept, (drain w)\<lparr>w_app := (w_app w)\<lparr>app_chain :=
      (app_chain (w_app w))\<lparr>blocks := blocks (app_chain (w_app w)) @ [?g]\<rparr>\<rparr>,
      w_fs := store_put E H (file_io t) (app_store (w_app w)) ?g (w_fs w)\<rparr>)"
    using app_append_valid [of E "drain w" ?g "file_io t" H] assms content_ok_genesis
    by (simp add: pow_ok_def)
  then show "do_genesis E H t w = (Inr True, notify t (''genesis appended '' @ check_mark) 4000 ''Genesis created'' 32
      ((drain w)\<lparr>w_app := (w_app w)\<lparr>app_chain := (app_chain (w_app w))\<lparr>blocks := blocks (app_chain (w_app w)) @ [?g]\<rparr>\<rparr>,
      w_fs := store_put E H (file_io t) (app_store (w_app w)) ?g (w_fs w)\<rparr>))"
    using assms(1) by (simp add: do_genesis_def height_def)
qed (simp_all add: assms(1) notify_def on_app_def drain_def)

lemma app_append_tip:
  assumes "app_append E H io b w = (r, w')" and "tip (app_chain (w_app w)) \<noteq> None"
  shows "tip (app_chain (w_app w')) \<noteq> None \<and> mining (w_app w') = mining (w_app w)"
proof -
  obtain res c' fs' where a: "append_and_store E H io (app_store (w_app w)) b (app_chain (w_app w), w_fs w) = (res, c', fs')"
    by (metis prod_cases3)
  have "tip c' \<noteq> None"
    using a assms(2)
    by (cases rule: append_and_store_cases [of E "app_chain (w_app w)" b H io "app_store (w_app w)" "w_fs w"])
      (auto simp: tip_def split: if_splits)
  with a assms(1) show ?thesis by (auto simp: app_append_def split: sum.splits)
qed

lemma do_append_signed_block_extends:
  assumes "do_append_signed_block E H t w = (Inr True, w')"
  shows "\<exists>b. blocks (app_chain (w_app w')) = blocks (app_chain (w_app w)) @ [b]"
proof -
  from assms obtain b r w2 where a: "app_append E H (file_io t) b w = (Inr r, w2)" and "is_valid r"
    and "app_chain (w_app w') = app_chain (w_app w2)"
    by (auto simp: do_append_signed_block_def Let_def split: option.splits sum.splits prod.splits if_splits)
  then show ?thesis
    by (cases rule: append_and_store_cases [of E "app_chain (w_app w)" b H "file_io t" "app_store (w_app w)" "w_fs w"])
      (auto simp: app_append_def)
qed

lemma do_append_signed_block_ok:
  assumes "blocks (app_chain (w_app w)) \<noteq> []" and "pem_round_trip E" and "ecdsa_correct E"
    and "\<And>nonce. demo_transaction E nonce 42 ''darth vader'' = Inr (tx nonce)"
    and "hdr_timestamp (header (last (blocks (app_chain (w_app w))))) \<le> system_sec t"
    and "difficulty_bits (config (app_chain (w_app w))) = 0"
    and "ofstream_open (file_io t)" and "ofstream_good (file_io t)"
  shows "\<exists>w'. do_append_signed_block E H t w = (Inr True, w')"
proof -
  obtain tip_block where tip: "tip (app_chain (w_app w)) = Some tip_block" using assms(1) by (simp add: tip_def)
  define n where "n = 1 + (if transactions tip_block = [] then 0 else tx_nonce (last (transactions tip_block)))"
  let ?b = "build_block_from_transactions E (app_chain (w_app w)) [tx n] (system_sec t)"
  have "content_ok E (blocks (app_chain (w_app w))) ?b"
    using demo_transaction_verifies [OF assms(2,3,4), of n] assms(1,5)
    by (intro content_ok_built) (simp_all add: is_coinbase_def)
  from app_append_valid [OF this _ assms(7,8), of H] assms(6)
  have "fst (app_append E H (file_io t) ?b w) = Inr accept" by (simp add: pow_ok_def)
  with tip assms(4) show ?thesis
    by (auto simp: do_append_signed_block_def Let_def n_def split: prod.split)
qed

section \<open>A concrete session\<close>

definition sample_tick :: tick where
  "sample_tick = \<lparr>time_text = ''12:00:00'', system_sec = 1700000000, steady_ns = 0, file_io = reliable_io,
     thread_ok = True, join_clock = (\<lambda>_. 1700000000), join_seen = 0\<rparr>"

definition sample_world :: World where
  "sample_world =
     \<lparr>w_app = push_log ''c'' ''Press G to create genesis'' 33 (push_log ''b'' ''TUI started'' 36 (new_App data_store)),
      w_fs = \<lparr>dirs = (\<lambda>d. d = ''./data''), files = [''./data/chain.log'' \<mapsto> []]\<rparr>, w_input = [],
      w_debounce = new_KeyDebounce 0, w_running = True\<rparr>"

lemma sample_world_fields [simp]:
  "app_chain (w_app sample_world) = new_Chain default_config" "mining (w_app sample_world) = new_MiningState"
  "ui_difficulty_bits (w_app sample_world) = 16"
  "w_input sample_world = []" "w_debounce sample_world = new_KeyDebounce 0"
  by (simp_all add: sample_world_def new_App_def)

lemma sample_tui_start:
  "tui_start sample_openssl sample_host reliable_io ''a'' ''b'' ''c'' 0 sample_fs = Inr (Inr sample_world)"
proof -
  have st: "new_BlockStore reliable_io ''./data'' sample_fs = (Inr data_store, w_fs sample_world)"
    by (simp add: new_BlockStore_def open_write_log_def reliable_io_def path_join_def data_store_def sample_fs_def
        sample_world_def Let_def fun_eq_iff)
  have "log_holds sample_openssl sample_host data_store (w_fs sample_world) []"
    by (simp add: log_holds_def sample_world_def)
  from restore_logged [OF this] st show ?thesis
    by (simp add: tui_start_def new_App_def new_Chain_def height_def crypto_init_def sample_openssl_def Let_def)
      (simp add: sample_world_def new_App_def new_Chain_def)
qed

lemma sample_world_reachable:
  "io_ok reliable_io \<Longrightarrow> tui_reachable sample_openssl sample_host io_ok sample_fs sample_world"
  by (rule tui_reachable.start [OF sample_tui_start])

text \<open>The key \<open>G\<close> arrives and is handled.\<close>

definition sample_pressed :: World where
  "sample_pressed = sample_world\<lparr>w_input := [0x67]\<rparr>"

definition sample_born :: World where
  "sample_born = snd (the (key_event sample_openssl sample_host 300000000 sample_tick sample_pressed))"

lemma sample_key_event:
  "key_event sample_openssl sample_host 300000000 sample_tick sample_pressed = Some (Inr (), sample_born)"
  "blocks (app_chain (w_app sample_born)) = [make_genesis_block sample_openssl ''Astro: Born from bytes.'' 1700000000]"
  "mining (w_app sample_born) = new_MiningState"
  "ui_difficulty_bits (w_app sample_born) = 16"
  "w_input sample_born = []" "last_key (w_debounce sample_born) = 0x67" "config (app_chain (w_app sample_born)) = default_config"
proof -
  let ?w = "sample_pressed\<lparr>w_input := [], w_debounce := \<lparr>last_key = 0x67, last_time = 300000000, min_interval_ms = 200\<rparr>\<rparr>"
  obtain w' where g: "do_genesis sample_openssl sample_host sample_tick ?w = (Inr True, w')"
    and b: "blocks (app_chain (w_app w')) = [make_genesis_block sample_openssl ''Astro: Born from bytes.'' (system_sec sample_tick)]"
    and m: "mining (w_app w') = mining (w_app ?w)" "ui_difficulty_bits (w_app w') = ui_difficulty_bits (w_app ?w)"
      "w_debounce w' = w_debounce ?w" "config (app_chain (w_app w')) = config (app_chain (w_app ?w))"
    by (rule do_genesis_ok [of ?w sample_tick sample_openssl sample_host])
      (simp_all add: sample_pressed_def new_Chain_def default_config_def sample_tick_def reliable_io_def)
  have "key_event sample_openssl sample_host 300000000 sample_tick sample_pressed = Some (Inr (), drain w')"
    using g by (simp add: key_event_def read_key_def allow_def sample_pressed_def new_KeyDebounce_def handle_key_def
        is_key_def key_of_def then_drain_def)
  then show "key_event sample_openssl sample_host 300000000 sample_tick sample_pressed = Some (Inr (), sample_born)"
    "blocks (app_chain (w_app sample_born)) = [make_genesis_block sample_openssl ''Astro: Born from bytes.'' 1700000000]"
    "mining (w_app sample_born) = new_MiningState" "ui_difficulty_bits (w_app sample_born) = 16"
    "w_input sample_born = []" "last_key (w_debounce sample_born) = 0x67" "config (app_chain (w_app sample_born)) = default_config"
    using b m by (simp_all add: sample_born_def sample_tick_def sample_pressed_def drain_def drain_input_empties new_Chain_def)
qed

lemma sample_born_step: "io_ok reliable_io \<Longrightarrow> tui_step sample_openssl sample_host io_ok sample_pressed sample_born"
  by (rule tui_step.key [OF sample_key_event(1)]) (simp add: sample_tick_def)

lemma sample_born_reachable:
  assumes "io_ok reliable_io"
  shows "tui_reachable sample_openssl sample_host io_ok sample_fs sample_born"
proof -
  have "tui_step sample_openssl sample_host io_ok sample_world sample_pressed"
    using tui_step.input [of sample_openssl sample_host io_ok sample_world "[0x67]"] by (simp add: sample_pressed_def)
  with sample_world_reachable [of io_ok] sample_born_step [of io_ok] assms show ?thesis
    by (meson tui_reachable.step)
qed

section \<open>Properties\<close>

text \<open>C15: whatever keys are pressed and however the worker thread and the main loop interleave, the
  chain of the application always satisfies the chain invariant, the log never exceeds its 200
  lines, the difficulty stays between 0 and 32 bits and the scroll position stays inside the log.\<close>

theorem tui_invariant:
  assumes "tui_reachable E H (\<lambda>_. True) fs w"
  shows "chain_ok E (blocks (app_chain (w_app w))) \<and> length (app_log (w_app w)) \<le> 200 \<and>
    ui_difficulty_bits (w_app w) \<le> 32 \<and>
    (log_scroll (w_app w) = 0 \<or> log_scroll (w_app w) < length (app_log (w_app w)))"
  using tui_reachable_invariant [OF assms] chain_reachable_ok by (auto simp: ui_ok_def)

theorem tui_invariant_witness:
  "chain_ok sample_openssl [make_genesis_block sample_openssl ''Astro: Born from bytes.'' 1700000000] \<and>
   length (app_log (w_app sample_born)) \<le> 200"
  using tui_invariant [OF sample_born_reachable] by (simp add: sample_key_event)

text \<open>C11: every step of the interface does to the chain and its file nothing but offer blocks to
  \<open>append_and_store\<close>, set the difficulty, or clear both: the program with its threads refines a
  sequential ledger.\<close>

theorem tui_refines_ledger:
  assumes "tui_step E H io_ok w w'"
  shows "app_store (w_app w') = app_store (w_app w) \<and>
    (ledger_step E H io_ok (app_store (w_app w)))\<^sup>*\<^sup>* (ledger w) (ledger w')"
  by (rule tui_step_ledger [OF assms])

theorem tui_refines_ledger_witness:
  "(ledger_step sample_openssl sample_host (\<lambda>io. io = reliable_io) (app_store (w_app sample_pressed)))\<^sup>*\<^sup>*
     (ledger sample_pressed) (ledger sample_born)"
  using tui_refines_ledger [OF sample_born_step] by simp

text \<open>Nothing is lost by a restart. In a session that began in a fresh directory and whose file
  operations succeeded, starting the program again at any moment restores exactly the blocks the
  running program has, whatever difficulty they were mined for.\<close>

theorem tui_restart_recovers:
  assumes "tui_reachable E H (\<lambda>io. io = reliable_io) fs w" and "files fs ''./data/chain.log'' = None"
    and "list_all (storable H) (blocks (app_chain (w_app w)))"
  shows "\<exists>w'. tui_start E H reliable_io tb1 tb2 tb3 now (w_fs w) = Inr (Inr w') \<and>
    blocks (app_chain (w_app w')) = blocks (app_chain (w_app w))"
proof -
  have "crypto_init E" and "logged E H data_store (ledger w)" using tui_reachable_logged [OF assms(1,2)] by auto
  moreover have "chain_ok E (blocks (app_chain (w_app w)))" using tui_reachable_invariant [OF assms(1)] chain_reachable_ok by blast
  ultimately obtain w' where "tui_start E H reliable_io tb1 tb2 tb3 now (w_fs w) = Inr (Inr w')"
    and "blocks (app_chain (w_app w')) = blocks (app_chain (w_app w))"
    using restart_restores [OF _ _ assms(3)] by metis
  then show ?thesis by blast
qed

lemma sample_born_storable:
  "storable sample_host (make_genesis_block sample_openssl ''Astro: Born from bytes.'' 1700000000)"
  by (simp add: storable_def block_fits_def header_wf_def make_genesis_block_def Let_def
      serialize_block_eq length_serialize_header length_lp_tx length_serialize_tx tx_fits_def sample_host_def)

theorem tui_restart_recovers_witness:
  "\<exists>w'. tui_start sample_openssl sample_host reliable_io [] [] [] 0 (w_fs sample_born) = Inr (Inr w') \<and>
     blocks (app_chain (w_app w')) = blocks (app_chain (w_app sample_born))"
  by (rule tui_restart_recovers [OF sample_born_reachable])
    (simp_all add: sample_key_event sample_born_storable, simp add: sample_fs_def)

text \<open>C24: a block the worker mined for the current tip at the displayed difficulty is appended to the chain by the
  next poll and its whole record to the file, provided every transaction in it has a sender and verifies, the
  worker's clock was not behind the tip, the file can be opened and written, and everything is flushed.\<close>

theorem mined_block_is_appended:
  assumes "mine_block E clk flag (app_chain (w_app w)) txs (ui_difficulty_bits (w_app w)) True 50000 = Some (Found b, pr)"
    and "ms_done (mining (w_app w))" and "ms_mined_block (mining (w_app w)) = b"
    and "blocks (app_chain (w_app w)) \<noteq> []"
    and "\<forall>k. hdr_timestamp (header (last (blocks (app_chain (w_app w))))) \<le> clk k"
    and "\<forall>tx \<in> set txs. from_pub_pem tx \<noteq> [] \<and> verify E tx = Inr True"
    and "ofstream_open (file_io t)" and "ofstream_good (file_io t)"
    and "ofstream_flushed (file_io t) (length (record_bytes E H b)) = length (record_bytes E H b)"
  shows "\<exists>w'. poll_mining E H t w = (Inr (), w') \<and>
    blocks (app_chain (w_app w')) = blocks (app_chain (w_app w)) @ [b] \<and>
    files (w_fs w') (log_path (app_store (w_app w))) =
      Some ((case files (w_fs w) (log_path (app_store (w_app w))) of None \<Rightarrow> [] | Some old \<Rightarrow> old) @ record_bytes E H b) \<and>
    \<not> ms_mining (mining (w_app w')) \<and> \<not> ms_done (mining (w_app w'))"
proof -
  let ?w = "poll_ready w"
  have "content_ok E (blocks (app_chain (w_app ?w))) b"
    using mined_content_ok [OF assms(1,4,5,6)] by (simp add: set_difficulty_bits_def)
  moreover have "solves E (ui_difficulty_bits (w_app w)) b" by (rule mine_block_found [OF assms(1)])
  then have "pow_ok E (config (app_chain (w_app ?w))) (blocks (app_chain (w_app ?w))) b"
    by (simp add: pow_ok_def solves_def meets_difficulty_def set_difficulty_bits_def)
  ultimately show ?thesis
    using app_append_valid [of E ?w b "file_io t" H] assms(2,3,7,8,9)
    by (simp add: poll_mining_def set_difficulty_bits_def store_put_file)
qed

definition sample_mined :: Block where
  "sample_mined = candidate sample_openssl (\<lambda>_. 1700000001) (app_chain (w_app sample_born)) [] 0"

definition sample_reward :: Block where
  "sample_reward = candidate sample_openssl (\<lambda>_. 1700000001) (app_chain (w_app sample_born)) [sample_signed] 0"

definition sample_found :: World where
  "sample_found = on_app (\<lambda>app. app\<lparr>mining := (mining app)\<lparr>ms_done := True, ms_mined_block := sample_reward\<rparr>\<rparr>) sample_born"

theorem mined_block_is_appended_witness:
  "\<exists>w'. poll_mining sample_openssl sample_host sample_tick sample_found = (Inr (), w') \<and>
     blocks (app_chain (w_app w')) = blocks (app_chain (w_app sample_found)) @ [sample_reward] \<and>
     files (w_fs w') (log_path (app_store (w_app sample_found))) =
       Some ((case files (w_fs sample_found) (log_path (app_store (w_app sample_found))) of None \<Rightarrow> [] | Some old \<Rightarrow> old) @
         record_bytes sample_openssl sample_host sample_reward) \<and>
     \<not> ms_mining (mining (w_app w')) \<and> \<not> ms_done (mining (w_app w'))"
proof (rule mined_block_is_appended)
  have "ui_difficulty_bits (w_app sample_found) = 16" by (simp add: sample_found_def sample_key_event)
  then show "mine_block sample_openssl (\<lambda>_. 1700000001) (\<lambda>_. False) (app_chain (w_app sample_found)) [sample_signed]
      (ui_difficulty_bits (w_app sample_found)) True 50000 = Some (Found sample_reward, [])"
    using mine_block_first [of sample_openssl 16 "\<lambda>_. 1700000001" "app_chain (w_app sample_found)" "[sample_signed]" "\<lambda>_. False" True 50000]
    by (simp add: solves_def hash_header_def order_trans [OF _ sample_sha_zero_bits] sample_reward_def sample_found_def)
  show "\<forall>tx \<in> set [sample_signed]. from_pub_pem tx \<noteq> [] \<and> verify sample_openssl tx = Inr True"
    using sample_signed_sender sample_signed_verifies by (simp add: is_coinbase_def)
qed (simp_all add: sample_found_def sample_key_event make_genesis_block_def sample_tick_def reliable_io_def Let_def)

text \<open>C34: mining works once. The worker thread is never joined when a run has ended, so after a
  run that found a block the next press of \<open>M\<close> assigns to a joinable \<open>std::thread\<close> and the program
  is terminated.\<close>

theorem second_mining_run_terminates:
  assumes "start_mining E t w = (Inr (), w1)" and "ms_worker (mining (w_app w1)) = Starting d txs"
    and "tip (app_chain (w_app w)) \<noteq> None"
    and "w2 = on_app (\<lambda>app. app\<lparr>mining := worker_leave (worker_publish (worker_store now b (mining app)))\<rparr>) w1"
    and "poll_mining E H t2 w2 = (Inr (), w3)"
    and "demo_transaction E 1 1 ''miner-reward'' = Inr tx" and "thread_ok t3"
  shows "fst (start_mining E t3 w3) = Inl Terminated"
proof -
  have tip2: "tip (app_chain (w_app w2)) \<noteq> None" and ms2: "ms_done (mining (w_app w2))" "ms_worker (mining (w_app w2)) = Finished"
    using assms(1,3,4) start_mining_ledger [OF assms(1)]
    by (auto simp: ledger_def worker_leave_def worker_publish_def worker_store_def)
  let ?w = "poll_ready w2"
  obtain q w4 where a: "app_append E H (file_io t2) (ms_mined_block (mining (w_app w2))) ?w = (q, w4)" by fastforce
  have "tip (app_chain (w_app w4)) \<noteq> None \<and> mining (w_app w4) = (mining (w_app w2))\<lparr>ms_done := False, ms_mining := False\<rparr>"
    using app_append_tip [OF a] tip2 by (auto simp: tip_def set_difficulty_bits_def split: if_splits)
  moreover have "app_chain (w_app w3) = app_chain (w_app w4) \<and> mining (w_app w3) = mining (w_app w4)"
    using assms(5) a ms2(1) by (auto simp: poll_mining_def Let_def split: sum.splits if_splits)
  ultimately show ?thesis
    using assms(6,7) ms2(2) by (simp add: start_mining_def joinable_def Let_def)
qed

lemma append_without_transactions:
  assumes "transactions b = []"
  shows "\<exists>r. fst (append_and_store E H io store b (c, fs)) = Inr r"
proof -
  have "\<exists>r. validate_block E c b = Inr r"
    using assms by (simp add: validate_block_cases split: option.split)
  then show ?thesis
    by (cases rule: append_and_store_cases [of E c b H io store fs]) auto
qed

lemma poll_without_transactions:
  assumes "transactions (ms_mined_block (mining (w_app w))) = []"
  shows "\<exists>w'. poll_mining E H t w = (Inr (), w')"
proof -
  let ?w = "poll_ready w"
  have "\<exists>r w'. app_append E H io (ms_mined_block (mining (w_app w))) w2 = (Inr r, w')" for io w2
    using append_without_transactions [OF assms, of E H io "app_store (w_app w2)" "app_chain (w_app w2)" "w_fs w2"]
    by (auto simp: app_append_def split: prod.split)
  then obtain r w' where "app_append E H (file_io t) (ms_mined_block (mining (w_app w))) ?w = (Inr r, w')" by blast
  then show ?thesis by (simp add: poll_mining_def Let_def)
qed

definition sample_started :: World where
  "sample_started = snd (start_mining sample_openssl sample_tick sample_born)"

definition sample_returned :: World where
  "sample_returned = on_app (\<lambda>app. app\<lparr>mining := worker_leave (worker_publish (worker_store 0 sample_mined (mining app)))\<rparr>)
     sample_started"

definition sample_polled :: World where
  "sample_polled = snd (poll_mining sample_openssl sample_host sample_tick sample_returned)"

lemma sample_start_mining: "start_mining sample_openssl sample_tick sample_born = (Inr (), sample_started)"
proof -
  obtain tx where "demo_transaction sample_openssl 1 1 ''miner-reward'' = Inr tx"
    using sample_demo_transaction by fast
  then show ?thesis
    by (simp add: sample_started_def start_mining_def sample_key_event new_MiningState_def reset_mining_def
        joinable_def tip_def sample_tick_def)
qed

theorem second_mining_run_terminates_witness:
  "fst (start_mining sample_openssl sample_tick sample_polled) = Inl Terminated"
proof -
  obtain tx where tx: "demo_transaction sample_openssl 1 1 ''miner-reward'' = Inr tx"
    using sample_demo_transaction by fast
  have tip: "tip (app_chain (w_app sample_born)) \<noteq> None" by (simp add: tip_def sample_key_event)
  have ok: "thread_ok sample_tick" by (simp add: sample_tick_def)
  have worker: "ms_worker (mining (w_app sample_started)) = Starting 16 [tx]"
    using tx tip ok
    by (auto simp: sample_started_def start_mining_def sample_key_event new_MiningState_def reset_mining_def joinable_def Let_def)
  have "transactions (ms_mined_block (mining (w_app sample_returned))) = []"
    by (simp add: sample_returned_def worker_leave_def worker_publish_def worker_store_def sample_mined_def candidate_def
        build_block_from_transactions_def Let_def)
  from poll_without_transactions [OF this, of sample_openssl sample_host sample_tick]
  have "poll_mining sample_openssl sample_host sample_tick sample_returned = (Inr (), sample_polled)"
    by (auto simp: sample_polled_def)
  from second_mining_run_terminates [OF sample_start_mining worker tip sample_returned_def this tx ok] show ?thesis .
qed

end
