(* ===== verification/Astro_Tui_Sync.thy ===== *)
theory Astro_Tui_Sync
  imports Astro_Tui_Loop
begin

text \<open>
  The synchronisation of the two threads of src/cli/tui.cpp. The flags and counters of \<open>MiningState\<close> are
  atomic; the chain, the mined block, the time it was found and the short hash are not, and some of them
  are accessed under the mutex \<open>mu\<close>. For every place of the worker and every activity of the main thread
  the accesses to these four are listed, and two lists race when they have conflicting accesses that are
  not both made under the mutex.
\<close>

section \<open>Accesses\<close>

datatype shared = Shared_blocks | Shared_mined_block | Shared_last_hash_short | Shared_last_done_time

record access =
  acc_what :: shared
  acc_write :: bool
  acc_locked :: bool

definition reads :: "shared \<Rightarrow> access" where
  "reads x = \<lparr>acc_what = x, acc_write = False, acc_locked = False\<rparr>"

definition writes :: "shared \<Rightarrow> access" where
  "writes x = \<lparr>acc_what = x, acc_write = True, acc_locked = False\<rparr>"

definition locked :: "access \<Rightarrow> access" where
  "locked a = a\<lparr>acc_locked := True\<rparr>"

definition conflict :: "access \<Rightarrow> access \<Rightarrow> bool" where
  "conflict a b \<longleftrightarrow> acc_what a = acc_what b \<and> (acc_write a \<or> acc_write b) \<and> \<not> (acc_locked a \<and> acc_locked b)"

definition race :: "access list \<Rightarrow> access list \<Rightarrow> bool" where
  "race as bs \<longleftrightarrow> list_ex (\<lambda>a. list_ex (conflict a) bs) as"

text \<open>What the worker may access next: it reads the chain to build its block, and writes the results of the search.\<close>

fun worker_accesses :: "Worker \<Rightarrow> access list" where
  "worker_accesses (Starting d txs) = [reads Shared_blocks]"
| "worker_accesses (Searching c d txs) =
     [locked (writes Shared_last_hash_short), locked (writes Shared_mined_block), locked (writes Shared_last_done_time)]"
| "worker_accesses _ = []"

text \<open>The branches of \<open>draw\<close>: the time of the result is read without the mutex.\<close>

definition draw_accesses :: "App \<Rightarrow> access list" where
  "draw_accesses app =
     (let ms = mining app
      in reads Shared_blocks #
         (if tip (app_chain app) = None then []
          else if \<not> ms_mining ms \<and> \<not> ms_done ms then
            (if ms_has_recent_result ms then [reads Shared_last_done_time, locked (reads Shared_last_hash_short)] else [])
          else if ms_mining ms then [locked (reads Shared_last_hash_short)]
          else []))"

definition poll_accesses :: "App \<Rightarrow> access list" where
  "poll_accesses app =
     (if ms_done (mining app)
      then [locked (reads Shared_mined_block), reads Shared_blocks, writes Shared_blocks] else [])"

text \<open>
  The handlers. \<open>do_clear_store\<close> joins a running worker before it touches the chain, so its writes then meet
  no other thread. \<open>do_append_signed_block\<close> writes the chain when its block is accepted; for the other handlers a
  write is listed wherever the code may reach one.
\<close>

definition key_accesses :: "openssl \<Rightarrow> host \<Rightarrow> tick \<Rightarrow> int \<Rightarrow> World \<Rightarrow> access list" where
  "key_accesses E H t k w =
     (let app = w_app w in
      if is_key k ''gG'' then
        reads Shared_blocks # (if 0 < height (app_chain app) then [] else [writes Shared_blocks])
      else if is_key k ''bB'' then
        reads Shared_blocks #
          (if blocks (app_chain (w_app (snd (do_append_signed_block E H t w)))) = blocks (app_chain app) then []
           else [writes Shared_blocks])
      else if is_key k ''iI'' then [reads Shared_blocks]
      else if is_key k ''mM'' then
        (if ms_mining (mining app) then []
         else reads Shared_blocks #
           (if tip (app_chain app) = None then [] else [locked (writes Shared_last_hash_short)]))
      else if is_key k ''xX'' then (if ms_mining (mining app) then [] else [writes Shared_blocks])
      else [])"

section \<open>The flags say where the worker is\<close>

fun in_search :: "Worker \<Rightarrow> bool" where
  "in_search (Starting d txs) = True"
| "in_search (Searching c d txs) = True"
| "in_search Publishing = True"
| "in_search _ = False"

text \<open>
  While the worker is on its way to a result, \<open>mining\<close> is set, \<open>done\<close> is not, and there is a chain to mine on.
\<close>

definition sync_ok :: "App \<Rightarrow> bool" where
  "sync_ok app \<longleftrightarrow>
     (in_search (ms_worker (mining app)) \<longrightarrow>
        ms_mining (mining app) \<and> \<not> ms_done (mining app) \<and> tip (app_chain app) \<noteq> None)"

lemma sync_ok_fields:
  assumes "sync_ok app" and "mining app' = mining app" and "tip (app_chain app) \<noteq> None \<Longrightarrow> tip (app_chain app') \<noteq> None"
  shows "sync_ok app'"
  using assms by (auto simp: sync_ok_def)

lemma sync_ok_simps [simp]:
  "sync_ok (push_log tb s color app) = sync_ok app" "sync_ok (toast now s color ms app) = sync_ok app"
  "sync_ok (app\<lparr>ui_difficulty_bits := d\<rparr>) = sync_ok app" "sync_ok (app\<lparr>dirty := b\<rparr>) = sync_ok app"
  "sync_ok (app\<lparr>log_scroll := k\<rparr>) = sync_ok app"
  by (simp_all add: sync_ok_def)

lemma sync_ok_notify [simp]: "sync_ok (w_app (notify t s ms note color w)) = sync_ok (w_app w)"
  by (simp add: notify_def)

lemma sync_ok_idle: "\<not> in_search (ms_worker (mining app)) \<Longrightarrow> sync_ok app"
  by (simp add: sync_ok_def)

lemma worker_step_sync:
  assumes "worker_step E c (mining app) ms" and "sync_ok app"
  shows "sync_ok (app\<lparr>mining := ms\<rparr>)"
  using assms
  by (auto simp: sync_ok_def worker_progress_def worker_store_def worker_publish_def worker_leave_def elim!: worker_stepE)

lemma app_append_sync: "app_append E H io b w = (r, w') \<Longrightarrow> sync_ok (w_app w) \<Longrightarrow> sync_ok (w_app w')"
  using app_append_tip [of E H io b w r w'] by (auto simp: app_append_def sync_ok_def split: prod.splits)

lemma poll_mining_sync:
  assumes "poll_mining E H t w = (r, w')" and "sync_ok (w_app w)"
  shows "sync_ok (w_app w')"
proof (cases "ms_done (mining (w_app w))")
  case True
  with assms(2) have idle: "\<not> in_search (ms_worker (mining (w_app w)))" by (simp add: sync_ok_def)
  obtain q w2 where a: "app_append E H (file_io t) (ms_mined_block (mining (w_app w))) (poll_ready w) = (q, w2)" by fastforce
  have "sync_ok (w_app w2)" by (rule app_append_sync [OF a]) (simp add: idle sync_ok_idle)
  with True a assms(1) show ?thesis by (auto simp: poll_mining_def Let_def split: sum.splits if_splits)
qed (use assms in \<open>simp add: poll_mining_def\<close>)

lemma start_mining_sync: "start_mining E t w = (Inr (), w') \<Longrightarrow> sync_ok (w_app w) \<Longrightarrow> sync_ok (w_app w')"
  by (auto simp: start_mining_def sync_ok_def reset_mining_def Let_def split: if_splits sum.splits)

lemma do_genesis_sync: "do_genesis E H t w = (r, w') \<Longrightarrow> sync_ok (w_app w) \<Longrightarrow> sync_ok (w_app w')"
  using app_append_sync [where w = "drain w" and io = "file_io t"]
  by (fastforce simp: do_genesis_def Let_def split: if_splits prod.splits sum.splits)

lemma do_append_signed_block_sync: "do_append_signed_block E H t w = (r, w') \<Longrightarrow> sync_ok (w_app w) \<Longrightarrow> sync_ok (w_app w')"
  using app_append_sync [where w = w and io = "file_io t"]
  by (fastforce simp: do_append_signed_block_def Let_def split: if_splits prod.splits sum.splits option.splits)

lemma do_inspect_tip_sync [simp]: "sync_ok (w_app (do_inspect_tip E t w)) = sync_ok (w_app w)"
  by (simp add: do_inspect_tip_def split: option.split)

lemma do_clear_store_sync:
  assumes "do_clear_store E t w = (r, w')" and "sync_ok (w_app w)"
  shows "sync_ok (w_app w')"
proof -
  have "\<not> in_search (ms_worker (mining (w_app w')))"
    using assms by (cases rule: do_clear_store_cases [of E t w]; cases "ms_mining (mining (w_app w))")
      (auto simp: sync_ok_def)
  then show ?thesis by (rule sync_ok_idle)
qed

lemma handle_key_sync:
  assumes "handle_key E H t k w = (Inr (), w')" and "sync_ok (w_app w)"
  shows "sync_ok (w_app w')"
  using assms do_genesis_sync [of E H t w] do_append_signed_block_sync [of E H t w] start_mining_sync [of E t w]
    do_clear_store_sync [of E t w]
  by (auto simp: handle_key_def then_drain_Inr split: if_splits prod.splits)

lemma key_event_sync:
  assumes "key_event E H now t w = Some (Inr (), w')" and "sync_ok (w_app w)"
  shows "sync_ok (w_app w')"
  by (rule key_eventE [OF assms(1)]) (use assms(2) in \<open>auto dest: handle_key_sync\<close>)

lemma tui_step_sync: "tui_step E H io_ok w w' \<Longrightarrow> sync_ok (w_app w) \<Longrightarrow> sync_ok (w_app w')"
proof (erule tui_stepE, goal_cases)
  case (1 ms)
  then show ?case using worker_step_sync by fastforce
next
  case (6 F now first nowt rows cols avg st os app st')
  then show ?case by (auto simp: sync_ok_def dest!: draw_app)
qed (auto dest: poll_mining_sync key_event_sync)

lemma tui_reachable_sync: "tui_reachable E H io_ok fs w \<Longrightarrow> sync_ok (w_app w)"
proof (induction rule: tui_reachable.induct)
  case (start io tb1 tb2 tb3 now w)
  then have "mining (w_app w) = new_MiningState"
    by (auto simp: tui_start_def new_App_def Let_def split: if_splits prod.splits sum.splits)
  then show ?case by (intro sync_ok_idle) (simp add: new_MiningState_def)
qed (auto intro: tui_step_sync)

section \<open>A concrete session\<close>

text \<open>The session with a genesis block goes on: \<open>M\<close> is pressed.\<close>

definition sample_mining :: World where
  "sample_mining = snd (the (key_event sample_openssl sample_host 600000000 sample_tick (sample_born\<lparr>w_input := [0x6D]\<rparr>)))"

lemma sample_mining_key:
  "key_event sample_openssl sample_host 600000000 sample_tick (sample_born\<lparr>w_input := [0x6D]\<rparr>) = Some (Inr (), sample_mining)"
  "worker_accesses (ms_worker (mining (w_app sample_mining))) = [reads Shared_blocks]"
proof -
  obtain tx where tx: "demo_transaction sample_openssl 1 1 ''miner-reward'' = Inr tx"
    using sample_demo_transaction by fast
  obtain d where d: "allow 600000000 0x6D (w_debounce sample_born) = (True, d)"
    by (simp add: allow_def sample_key_event)
  let ?w = "sample_born\<lparr>w_input := [], w_debounce := d\<rparr>"
  have "tip (app_chain (w_app sample_born)) \<noteq> None" by (simp add: tip_def sample_key_event)
  with tx obtain w' where s: "start_mining sample_openssl sample_tick ?w = (Inr (), w')"
    and w: "ms_worker (mining (w_app w')) = Starting 16 [tx]"
    by (auto simp: start_mining_def sample_key_event new_MiningState_def reset_mining_def joinable_def sample_tick_def Let_def)
  from s d have "key_event sample_openssl sample_host 600000000 sample_tick (sample_born\<lparr>w_input := [0x6D]\<rparr>) = Some (Inr (), drain w')"
    by (simp add: key_event_def read_key_def handle_key_def is_key_def key_of_def then_drain_def)
  with w show "key_event sample_openssl sample_host 600000000 sample_tick (sample_born\<lparr>w_input := [0x6D]\<rparr>) = Some (Inr (), sample_mining)"
    "worker_accesses (ms_worker (mining (w_app sample_mining))) = [reads Shared_blocks]"
    by (simp_all add: sample_mining_def)
qed

lemma sample_mining_reachable:
  assumes "io_ok reliable_io"
  shows "tui_reachable sample_openssl sample_host io_ok sample_fs sample_mining"
proof -
  have "tui_step sample_openssl sample_host io_ok sample_born (sample_born\<lparr>w_input := [0x6D]\<rparr>)"
    using tui_step.input [of sample_openssl sample_host io_ok sample_born "[0x6D]"] by (simp add: sample_key_event)
  moreover have "tui_step sample_openssl sample_host io_ok (sample_born\<lparr>w_input := [0x6D]\<rparr>) sample_mining"
    by (rule tui_step.key [OF sample_mining_key(1)]) (simp add: sample_tick_def assms)
  ultimately show ?thesis using sample_born_reachable [of io_ok] assms by (meson tui_reachable.step)
qed

section \<open>Properties\<close>

lemmas access_simps = race_def conflict_def reads_def writes_def locked_def

lemma worker_accesses_cases:
  assumes "a \<in> set (worker_accesses wk)"
  shows "in_search wk \<and> (a = reads Shared_blocks \<or> a = locked (writes Shared_last_hash_short) \<or>
    a = locked (writes Shared_mined_block) \<or> a = locked (writes Shared_last_done_time))"
  using assms by (cases wk) auto

text \<open>C14: in every reachable state the accesses of the worker that may come next race neither with those
  of a redraw, nor with those of the poll for a mined block, nor with those of any key but \<open>B\<close>: the time of
  the result, which \<open>draw\<close> reads without the mutex, is read only when the worker has left its critical
  section, and the chain is only extended by the poll when the worker no longer reads it.\<close>

theorem tui_race_free:
  assumes "tui_reachable E H io_ok fs w"
  shows "let ws = worker_accesses (ms_worker (mining (w_app w))) in
    \<not> race ws (draw_accesses (w_app w)) \<and> \<not> race ws (poll_accesses (w_app w)) \<and>
    (\<not> is_key k ''bB'' \<longrightarrow> \<not> race ws (key_accesses E H t k w))"
proof (cases "in_search (ms_worker (mining (w_app w)))")
  case True
  with tui_reachable_sync [OF assms] have flags: "ms_mining (mining (w_app w))" "\<not> ms_done (mining (w_app w))"
    "tip (app_chain (w_app w)) \<noteq> None" by (auto simp: sync_ok_def)
  then have "0 < height (app_chain (w_app w))" by (auto simp: tip_def height_def split: if_splits)
  with flags show ?thesis
    by (auto simp: Let_def race_def list_ex_iff draw_accesses_def poll_accesses_def key_accesses_def conflict_def
        reads_def writes_def locked_def split: if_splits dest!: worker_accesses_cases)
next
  case False
  then have "worker_accesses (ms_worker (mining (w_app w))) = []" by (cases "ms_worker (mining (w_app w))") auto
  then show ?thesis by (simp add: race_def)
qed

theorem tui_race_free_witness:
  "worker_accesses (ms_worker (mining (w_app sample_mining))) = [reads Shared_blocks] \<and>
   \<not> race [reads Shared_blocks] (draw_accesses (w_app sample_mining)) \<and>
   \<not> race [reads Shared_blocks] (key_accesses sample_openssl sample_host sample_tick (key_of CHR ''x'') sample_mining)"
proof -
  have "\<not> is_key (key_of CHR ''x'') ''bB''" by (simp add: is_key_def key_of_def)
  then show ?thesis
    using tui_race_free [OF sample_mining_reachable, of "\<lambda>_. True" "key_of CHR ''x''" sample_tick]
    by (simp add: sample_mining_key(2) Let_def)
qed

text \<open>C37: the key \<open>B\<close> does race: right after mining has been started the worker has yet to read the chain,
  without the mutex and whatever it is by then, and when the handler of \<open>B\<close> has its block accepted it writes the
  chain, also without the mutex.\<close>

theorem append_races_with_miner:
  assumes "start_mining E t w = (Inr (), w1)" and "\<not> ms_mining (mining (w_app w))" and "tip (app_chain (w_app w)) \<noteq> None"
    and "do_append_signed_block E H t1 w1 = (Inr True, w2)"
  shows "race (worker_accesses (ms_worker (mining (w_app w1)))) (key_accesses E H t1 (key_of CHR ''b'') w1) \<and>
    (\<exists>d txs. \<forall>c ms. worker_step E c (mining (w_app w1)) ms \<longrightarrow> ms_worker ms = Searching c d txs) \<and>
    (\<exists>b. blocks (app_chain (w_app w2)) = blocks (app_chain (w_app w1)) @ [b])"
proof -
  obtain d txs where st: "ms_worker (mining (w_app w1)) = Starting d txs"
    using assms(1-3) by (auto simp: start_mining_def Let_def split: if_splits sum.splits)
  then have next_step: "\<exists>d txs. \<forall>c ms. worker_step E c (mining (w_app w1)) ms \<longrightarrow> ms_worker ms = Searching c d txs"
    by (intro exI [of _ d] exI [of _ txs]) (auto elim!: worker_stepE)
  obtain b where b: "blocks (app_chain (w_app w2)) = blocks (app_chain (w_app w1)) @ [b]"
    using do_append_signed_block_extends [OF assms(4)] by blast
  with st assms(4) next_step show ?thesis
    by (auto simp: key_accesses_def access_simps is_key_def key_of_def)
qed

lemma sample_append_while_mining:
  "\<exists>w2. do_append_signed_block sample_openssl sample_host sample_tick sample_started = (Inr True, w2)"
proof (rule do_append_signed_block_ok [OF _ sample_pem_round_trip sample_ecdsa_correct sample_demo_transaction])
  have c: "app_chain (w_app sample_started) = app_chain (w_app sample_born)"
    using start_mining_ledger [OF sample_start_mining] by (simp add: ledger_def)
  show "blocks (app_chain (w_app sample_started)) \<noteq> []" by (simp add: c sample_key_event)
  show "hdr_timestamp (header (last (blocks (app_chain (w_app sample_started))))) \<le> system_sec sample_tick"
    by (simp add: c sample_key_event make_genesis_block_def sample_tick_def Let_def)
  show "difficulty_bits (config (app_chain (w_app sample_started))) = 0"
    by (simp add: c sample_key_event default_config_def)
qed (simp_all add: sample_tick_def reliable_io_def)

theorem append_races_with_miner_witness:
  "race (worker_accesses (ms_worker (mining (w_app sample_started))))
     (key_accesses sample_openssl sample_host sample_tick (key_of CHR ''b'') sample_started)"
proof -
  obtain w2 where "do_append_signed_block sample_openssl sample_host sample_tick sample_started = (Inr True, w2)"
    using sample_append_while_mining by blast
  from append_races_with_miner [OF sample_start_mining _ _ this] show ?thesis
    by (simp add: sample_key_event new_MiningState_def tip_def)
qed

end
