(* ===== verification/Astro_Tui_Main.thy ===== *)
theory Astro_Tui_Main
  imports Astro_Tui_Sync
begin

text \<open>
  \<open>main\<close> of src/cli/tui.cpp as the sequential program it is: the loop over the waiting keys, a frame
  of the main loop, the loop itself and the end of the program, between the guards of the terminal.

  The worker thread, the terminal's user and signals act while the main thread runs. What they do
  before a point of the main thread is an \<open>interference\<close>, a function on the state that is part of the
  environment of a run; the clocks and the outcomes of file operations are the other part. Both loops
  may fail to end, so they are partial functions, with \<open>None\<close> for a run that does not return; waiting for a
  worker that never ends is the outcome \<open>Blocked\<close>. The pause between frames is left out.
\<close>

section \<open>The loops\<close>

type_synonym interference = "World \<Rightarrow> World"

record key_turn =
  kt_others :: interference
  kt_now :: int
  kt_tick :: tick

text \<open>\<open>for (int k; (k = read_key()) != -1; )\<close>.\<close>

partial_function (option) key_loop :: "openssl \<Rightarrow> host \<Rightarrow> (nat \<Rightarrow> key_turn) \<Rightarrow> nat \<Rightarrow> World \<Rightarrow> ((crash + unit) \<times> World) option" where
  "key_loop E H turns n w =
     (case key_event E H (kt_now (turns n)) (kt_tick (turns n)) (kt_others (turns n) w) of
        None \<Rightarrow> Some (Inr (), kt_others (turns n) w)
      | Some (res, w') \<Rightarrow>
          (case res of
             Inl c \<Rightarrow> Some (Inl c, w')
           | Inr _ \<Rightarrow> key_loop E H turns (n + 1) w'))"

record frame_env =
  fe_others :: interference
  fe_resized :: bool
  fe_winsize :: "(int \<times> int) option"
  fe_poll :: tick
  fe_keys :: "nat \<Rightarrow> key_turn"
  fe_now :: int
  fe_toast_now :: int
  fe_first :: int
  fe_nowt :: int
  fe_fps_now :: int

record Screen =
  scr_rows :: int
  scr_cols :: int
  scr_fps :: FPS
  scr_statics :: DrawStatics
  scr_last_draw :: int

text \<open>The answer of \<open>ioctl (TIOCGWINSZ)\<close>, if there is one, taken when both numbers are positive.\<close>

definition win_size :: "(int \<times> int) option \<Rightarrow> Screen \<Rightarrow> Screen" where
  "win_size ws s =
     (case ws of
        Some (r, c) \<Rightarrow> if 0 < r \<and> 0 < c then s\<lparr>scr_rows := r, scr_cols := c\<rparr> else s
      | None \<Rightarrow> s)"

definition take_resize :: "frame_env \<Rightarrow> World \<Rightarrow> Screen \<Rightarrow> World \<times> Screen" where
  "take_resize fe w s =
     (if fe_resized fe then (on_app (\<lambda>app. app\<lparr>dirty := True\<rparr>) w, win_size (fe_winsize fe) s) else (w, s))"

definition redraw :: "openssl \<Rightarrow> fp \<Rightarrow> frame_env \<Rightarrow> World \<Rightarrow> Screen \<Rightarrow> World \<times> Screen \<times> out list" where
  "redraw E F fe w s =
     (if dirty (w_app w) \<or> 120 * 1000000 \<le> fe_now fe - scr_last_draw s then
        (case draw E F (fe_toast_now fe) (fe_first fe) (fe_nowt fe) (w_app w) (scr_rows s) (scr_cols s)
                (fps_avg (scr_fps s)) (scr_statics s) of
           (os, app, st) \<Rightarrow>
             (w\<lparr>w_app := app\<lparr>dirty := False\<rparr>\<rparr>,
              s\<lparr>scr_fps := fps_tick F (fe_fps_now fe) (scr_fps s), scr_statics := st, scr_last_draw := fe_now fe\<rparr>, os))
      else (w, s, []))"

definition tui_frame :: "openssl \<Rightarrow> host \<Rightarrow> fp \<Rightarrow> frame_env \<Rightarrow> World \<Rightarrow> Screen \<Rightarrow>
    ((crash + unit) \<times> World \<times> Screen \<times> out list) option" where
  "tui_frame E H F fe w s =
     (let (w, s) = take_resize fe (fe_others fe w) s
      in case poll_mining E H (fe_poll fe) w of
           (Inl c, w) \<Rightarrow> Some (Inl c, w, s, [])
         | (Inr _, w) \<Rightarrow>
             (case key_loop E H (fe_keys fe) 0 w of
                None \<Rightarrow> None
              | Some (Inl c, w) \<Rightarrow> Some (Inl c, w, s, [])
              | Some (Inr _, w) \<Rightarrow> Some (Inr (), redraw E F fe w s)))"

text \<open>\<open>while (g_running)\<close>, with the output so far.\<close>

partial_function (option) tui_loop :: "openssl \<Rightarrow> host \<Rightarrow> fp \<Rightarrow> (nat \<Rightarrow> frame_env) \<Rightarrow> nat \<Rightarrow> World \<Rightarrow> Screen \<Rightarrow> out list \<Rightarrow>
    ((crash + unit) \<times> World \<times> Screen \<times> out list) option" where
  "tui_loop E H F frames n w s os =
     (if \<not> w_running w then Some (Inr (), w, s, os)
      else
        case tui_frame E H F (frames n) w s of
          None \<Rightarrow> None
        | Some (res, w', s', os') \<Rightarrow>
            (case res of
               Inl c \<Rightarrow> Some (Inl c, w', s', os @ os')
             | Inr _ \<Rightarrow> tui_loop E H F frames (n + 1) w' s' (os @ os')))"

section \<open>The program\<close>

definition tui_finish :: "openssl \<Rightarrow> tick \<Rightarrow> World \<Rightarrow> (crash + unit) \<times> World" where
  "tui_finish E t w =
     (let w = stop_mining t w
      in case join_worker E t (w_app w) of
           None \<Rightarrow> (Inl Blocked, w)
         | Some app \<Rightarrow> (Inr (), w\<lparr>w_app := app\<rparr>))"

record session =
  ss_tty_begin :: tty_calls
  ss_tty_end :: tty_calls
  ss_io :: io
  ss_times :: "string \<times> string \<times> string"
  ss_fps_last :: int
  ss_winsize :: "(int \<times> int) option"
  ss_debounce_now :: int
  ss_last_draw :: int
  ss_frames :: "nat \<Rightarrow> frame_env"
  ss_end :: tick

definition new_Screen :: "session \<Rightarrow> Screen" where
  "new_Screen ss = win_size (ss_winsize ss)
     \<lparr>scr_rows = 36, scr_cols = 120, scr_fps = \<lparr>fps_last = ss_fps_last ss, fps_avg = 0\<rparr>,
      scr_statics = new_DrawStatics, scr_last_draw = ss_last_draw ss\<rparr>"

text \<open>
  The result is a crash or the exit code, the last state of the application if it came to exist, the
  state of OpenSSL, the settings of the terminal and everything written to it. \<open>std::terminate\<close> does not run the guards'
  destructors.
\<close>

definition tui_main :: "openssl \<Rightarrow> host \<Rightarrow> fp \<Rightarrow> session \<Rightarrow> fs \<Rightarrow> tty \<Rightarrow>
    ((crash + int) \<times> World option \<times> crypto_state \<times> tty \<times> out list) option" where
  "tui_main E H F ss fs t =
     (let (tb1, tb2, tb3) = ss_times ss;
          (guard, t1) = new_TermiosGuard (ss_tty_begin ss) t
      in case tui_start E H (ss_io ss) tb1 tb2 tb3 (ss_debounce_now ss) fs of
           Inl c \<Rightarrow> Some (Inl c, None, Crypto_ready, t1, new_ScreenGuard)
         | Inr (Inl code) \<Rightarrow> Some (Inr code, None, Crypto_unused, t, [])
         | Inr (Inr w) \<Rightarrow>
             (case tui_loop E H F (ss_frames ss) 0 w (new_Screen ss) [] of
                None \<Rightarrow> None
              | Some (Inl c, w, s, os) \<Rightarrow> Some (Inl c, Some w, Crypto_ready, t1, new_ScreenGuard @ os)
              | Some (Inr _, w, s, os) \<Rightarrow>
                  (case tui_finish E (ss_end ss) w of
                     (Inl c, w) \<Rightarrow> Some (Inl c, Some w, Crypto_ready, t1, new_ScreenGuard @ os)
                   | (Inr _, w) \<Rightarrow>
                       Some (Inr 0, Some w, crypto_shutdown (hashing (ms_worker (mining (w_app w)))) Crypto_ready,
                             destroy_TermiosGuard (ss_tty_end ss) guard t1,
                             new_ScreenGuard @ os @ destroy_ScreenGuard))))"

section \<open>What the handlers leave alone\<close>

text \<open>
  A handler may empty the waiting input but adds nothing to it, and only the quit key ends the program.
\<close>

definition keeps_console :: "World \<Rightarrow> World \<Rightarrow> bool" where
  "keeps_console w w' \<longleftrightarrow> (w_input w' = w_input w \<or> w_input w' = []) \<and> (w_running w' \<longrightarrow> w_running w)"

lemma keeps_console_refl [simp]: "keeps_console w w"
  by (simp add: keeps_console_def)

lemma keeps_console_trans: "keeps_console w w' \<Longrightarrow> keeps_console w' w'' \<Longrightarrow> keeps_console w w''"
  by (auto simp: keeps_console_def)

lemma keeps_console_simps [simp]:
  "keeps_console w (on_app f w') = keeps_console w w'"
  "keeps_console w (notify t s ms note color w') = keeps_console w w'"
  "keeps_console w (w'\<lparr>w_fs := fs\<rparr>) = keeps_console w w'"
  "keeps_console w (w'\<lparr>w_app := a\<rparr>) = keeps_console w w'"
  by (simp_all add: keeps_console_def on_app_def notify_def)

lemma keeps_console_drain [intro]: "keeps_console w w' \<Longrightarrow> keeps_console w (drain w')"
  by (simp add: keeps_console_def drain_def drain_input_empties)

lemma app_append_console: "app_append E H io b w = (r, w') \<Longrightarrow> keeps_console w w'"
  by (auto simp: app_append_def split: prod.splits)

lemma poll_mining_console: "poll_mining E H t w = (r, w') \<Longrightarrow> keeps_console w w'"
  by (auto simp: poll_mining_def poll_ready_def keeps_console_def Let_def app_append_def on_app_def notify_def
      split: if_splits prod.splits sum.splits)

lemma do_genesis_console: "do_genesis E H t w = (r, w') \<Longrightarrow> keeps_console w w'"
  by (auto simp: do_genesis_def Let_def split: if_splits prod.splits sum.splits
      dest!: app_append_console intro: keeps_console_trans [OF keeps_console_drain [OF keeps_console_refl]])

lemma do_append_signed_block_console: "do_append_signed_block E H t w = (r, w') \<Longrightarrow> keeps_console w w'"
  by (auto simp: do_append_signed_block_def Let_def split: if_splits prod.splits sum.splits option.splits
      dest!: app_append_console)

lemma start_mining_console: "start_mining E t w = (r, w') \<Longrightarrow> keeps_console w w'"
  by (auto simp: start_mining_def Let_def split: if_splits sum.splits)

lemma do_inspect_tip_console: "keeps_console w (do_inspect_tip E t w)"
  by (simp add: do_inspect_tip_def split: option.split)

lemma do_clear_store_console: "do_clear_store E t w = (r, w') \<Longrightarrow> keeps_console w w'"
  by (cases rule: do_clear_store_cases [of E t w]) auto

lemma handle_key_console:
  assumes "handle_key E H t k w = (Inr (), w')"
  shows "keeps_console w w'"
  using assms do_genesis_console [of E H t w] do_append_signed_block_console [of E H t w]
    start_mining_console [of E t w] do_clear_store_console [of E t w] do_inspect_tip_console [of w E t]
  by (auto simp: handle_key_def then_drain_Inr split: if_splits prod.splits intro!: keeps_console_drain)
    (auto simp: keeps_console_def)

lemma key_event_console:
  assumes "key_event E H now t w = Some (Inr (), w')"
  shows "length (w_input w') < length (w_input w) \<and> (w_running w' \<longrightarrow> w_running w)"
  using assms
proof (rule key_eventE)
  fix k q d
  let ?w = "w\<lparr>w_input := q, w_debounce := d\<rparr>"
  assume k: "read_key (w_input w) = (k, q)" "k \<noteq> -1" and "w' = ?w \<or> handle_key E H t k ?w = (Inr (), w')"
  then have "keeps_console ?w w'" using handle_key_console [of E H t k ?w w'] by auto
  with read_key_shrinks [OF k] show ?thesis by (auto simp: keeps_console_def)
qed

lemma key_event_None: "key_event E H now t w = None \<longleftrightarrow> w_input w = []"
proof -
  have "uint ch \<noteq> -1" for ch :: u8 using uint_nonnegative [of ch] by linarith
  then show ?thesis by (auto simp: key_event_def read_key_def Let_def split: list.splits prod.splits)
qed

section \<open>The key loop\<close>

text \<open>What others do adds no input; it does not set the running flag.\<close>

definition quiet :: "interference \<Rightarrow> bool" where
  "quiet f \<longleftrightarrow> (\<forall>w. length (w_input (f w)) \<le> length (w_input w))"

definition never_restarts :: "interference \<Rightarrow> bool" where
  "never_restarts f \<longleftrightarrow> (\<forall>w. w_running (f w) \<longrightarrow> w_running w)"

lemma key_loop_quiet:
  assumes "\<forall>m \<ge> n. quiet (kt_others (turns m))"
  shows "\<exists>r. key_loop E H turns n w = Some r"
  using assms
proof (induction "length (w_input w)" arbitrary: n w rule: less_induct)
  case less
  let ?w = "kt_others (turns n) w"
  show ?case
  proof (cases "key_event E H (kt_now (turns n)) (kt_tick (turns n)) ?w")
    case None
    then show ?thesis by (simp add: key_loop.simps [of E H turns n w])
  next
    case (Some r)
    obtain res w' where r: "r = (res, w')" by fastforce
    show ?thesis
    proof (cases res)
      case (Inl c)
      with Some r show ?thesis by (simp add: key_loop.simps [of E H turns n w])
    next
      case (Inr u)
      have "length (w_input ?w) \<le> length (w_input w)" using less.prems by (simp add: quiet_def)
      moreover have "length (w_input w') < length (w_input ?w)" using key_event_console Some r Inr by fastforce
      ultimately have "\<exists>r. key_loop E H turns (n + 1) w' = Some r" using less.hyps less.prems by simp
      with Some r Inr show ?thesis by (simp add: key_loop.simps [of E H turns n w])
    qed
  qed
qed

lemma key_loop_step:
  "(\<And>w. \<exists>r. key_loop E H turns (n + 1) w = Some r) \<Longrightarrow> \<exists>r. key_loop E H turns n w = Some r"
  by (auto simp: key_loop.simps [of E H turns n w] split: option.split sum.split)

lemma key_loop_eventually_quiet:
  assumes "\<forall>m \<ge> N. quiet (kt_others (turns m))" and "n \<le> N"
  shows "\<exists>r. key_loop E H turns n w = Some r"
  using assms(2)
proof (induction n arbitrary: w rule: inc_induct)
  case base
  show ?case by (rule key_loop_quiet [OF assms(1)])
next
  case (step n)
  then show ?case using key_loop_step [of E H turns n w] by simp
qed

text \<open>Every run of the key loop that returns is a sequence of keys.\<close>

lemma key_loop_induct [consumes 1, case_names stops crash turn]:
  assumes "key_loop E H turns n w = Some r"
    and "\<And>n w. key_event E H (kt_now (turns n)) (kt_tick (turns n)) (kt_others (turns n) w) = None \<Longrightarrow>
      P n w (Inr (), kt_others (turns n) w)"
    and "\<And>n w c w'. key_event E H (kt_now (turns n)) (kt_tick (turns n)) (kt_others (turns n) w) = Some (Inl c, w') \<Longrightarrow>
      P n w (Inl c, w')"
    and "\<And>n w w' r. key_event E H (kt_now (turns n)) (kt_tick (turns n)) (kt_others (turns n) w) = Some (Inr (), w') \<Longrightarrow>
      P (n + 1) w' r \<Longrightarrow> P n w r"
  shows "P n w r"
proof -
  have "E' = E \<longrightarrow> H' = H \<longrightarrow> turns' = turns \<longrightarrow> P n w r" if "key_loop E' H' turns' n w = Some r" for E' H' turns' n w r
  proof (rule key_loop.raw_induct [OF _ that], intro impI)
    fix f E' H' turns' n w r
    assume IH: "\<And>E' H' turns' n w r. f E' H' turns' n w = Some r \<Longrightarrow> E' = E \<longrightarrow> H' = H \<longrightarrow> turns' = turns \<longrightarrow> P n w r"
      and body: "(case key_event E' H' (kt_now (turns' n)) (kt_tick (turns' n)) (kt_others (turns' n) w) of
          None \<Rightarrow> Some (Inr (), kt_others (turns' n) w)
        | Some (res, w') \<Rightarrow> (case res of Inl c \<Rightarrow> Some (Inl c, w') | Inr _ \<Rightarrow> f E' H' turns' (n + 1) w')) = Some r"
      and eq: "E' = E" "H' = H" "turns' = turns"
    show "P n w r"
      using body IH [of E H turns "n + 1"] assms(2) [of n w] assms(3) [of n w] assms(4) [of n w]
      by (cases r) (auto simp: eq split: option.splits sum.splits)
  qed
  with assms(1) show ?thesis by simp
qed

lemma key_loop_running:
  assumes "key_loop E H turns n w = Some (Inr u, w')" and "\<forall>n. never_restarts (kt_others (turns n))"
  shows "(w_running w' \<longrightarrow> w_running w) \<and> w_input w' = []"
proof -
  have "fst r = Inr () \<longrightarrow> (w_running (snd r) \<longrightarrow> w_running w) \<and> w_input (snd r) = []"
    if "key_loop E H turns n w = Some r" for r
    using that
  proof (induction rule: key_loop_induct)
    case (stops n w)
    then show ?case using assms(2) by (simp add: key_event_None never_restarts_def)
  next
    case (turn n w w' r)
    then show ?case using key_event_console [OF turn.hyps] assms(2) by (auto simp: never_restarts_def)
  qed simp
  from this [OF assms(1)] show ?thesis by simp
qed

text \<open>
  Bytes no key is bound to, other than the escape character; an environment that always leaves some input
  and adds only such bytes to it, whatever else it does.
\<close>

definition unbound :: "u8 \<Rightarrow> bool" where
  "unbound b \<longleftrightarrow> b \<noteq> 0x1b \<and> \<not> is_key (uint b) ''qQgGbBiImM[]jkxX''"

definition floods :: "interference \<Rightarrow> bool" where
  "floods f \<longleftrightarrow> (\<forall>w. w_input (f w) \<noteq> [] \<and> (\<forall>b \<in> set (w_input (f w)). b \<in> set (w_input w) \<or> unbound b))"

lemma handle_key_unbound: "unbound b \<Longrightarrow> handle_key E H t (uint b) w = (Inr (), w)"
  by (simp add: unbound_def handle_key_def is_key_def)

lemma key_event_unbound:
  assumes "w_input w = b # q" and "unbound b"
  obtains w' where "key_event E H now t w = Some (Inr (), w')" and "w_input w' = q"
proof -
  have "read_key (w_input w) = (uint b, q)" using assms by (simp add: read_key_def unbound_def)
  moreover have "uint b \<noteq> -1" using uint_nonnegative [of b] by linarith
  moreover obtain x d where "allow now (uint b) (w_debounce w) = (x, d)" by fastforce
  ultimately show ?thesis
    using that handle_key_unbound [OF assms(2)] by (cases x) (auto simp: key_event_def Let_def)
qed

lemma flooded_turn:
  assumes "floods f" and "\<forall>b \<in> set (w_input w). unbound b"
  obtains w' where "key_event E H now t (f w) = Some (Inr (), w')" and "\<forall>b \<in> set (w_input w'). unbound b"
proof -
  have all: "\<forall>b \<in> set (w_input (f w)). unbound b" and "w_input (f w) \<noteq> []"
    using assms by (auto simp: floods_def)
  then obtain b q where q: "w_input (f w) = b # q" by (cases "w_input (f w)") auto
  with all have "unbound b" by simp
  from key_event_unbound [OF q this, of E H now t] obtain w' where
    "key_event E H now t (f w) = Some (Inr (), w')" "w_input w' = q" .
  with that all q show ?thesis by simp
qed

lemma key_loop_flooded:
  assumes "\<forall>n. floods (kt_others (turns n))" and "\<forall>b \<in> set (w_input w). unbound b"
  shows "key_loop E H turns n w = None"
proof (rule ccontr)
  have flooded: "\<exists>w'. key_event E H (kt_now (turns n)) (kt_tick (turns n)) (kt_others (turns n) w) = Some (Inr (), w') \<and>
      (\<forall>b \<in> set (w_input w'). unbound b)" if "\<forall>b \<in> set (w_input w). unbound b" for n w
    using flooded_turn [OF assms(1) [rule_format, of n] that] by metis
  assume "key_loop E H turns n w \<noteq> None"
  then obtain r where "key_loop E H turns n w = Some r" by blast
  then have "\<not> (\<forall>b \<in> set (w_input w). unbound b)"
  proof (induction rule: key_loop_induct)
    case (stops n w)
    then show ?case using flooded [of w n] by auto
  next
    case (crash n w c w')
    then show ?case using flooded [of w n] by auto
  next
    case (turn n w w' r)
    then show ?case using flooded [of w n] by auto
  qed
  with assms(2) show False by blast
qed

section \<open>Frames as sequences of steps\<close>

abbreviation tui_steps :: "openssl \<Rightarrow> host \<Rightarrow> (io \<Rightarrow> bool) \<Rightarrow> World \<Rightarrow> World \<Rightarrow> bool" where
  "tui_steps E H io_ok \<equiv> (tui_step E H io_ok)\<^sup>*\<^sup>*"

text \<open>The others take steps of the program too; the file operations of the run are among those considered.\<close>

definition lawful :: "openssl \<Rightarrow> host \<Rightarrow> (io \<Rightarrow> bool) \<Rightarrow> interference \<Rightarrow> bool" where
  "lawful E H io_ok f \<longleftrightarrow> (\<forall>w. tui_steps E H io_ok w (f w))"

definition frame_lawful :: "openssl \<Rightarrow> host \<Rightarrow> (io \<Rightarrow> bool) \<Rightarrow> frame_env \<Rightarrow> bool" where
  "frame_lawful E H io_ok fe \<longleftrightarrow> lawful E H io_ok (fe_others fe) \<and> io_ok (file_io (fe_poll fe)) \<and>
     (\<forall>n. lawful E H io_ok (kt_others (fe_keys fe n)) \<and> io_ok (file_io (kt_tick (fe_keys fe n))))"

lemma key_loop_steps:
  assumes "key_loop E H turns n w = Some (Inr u, w')"
    and "\<forall>n. lawful E H io_ok (kt_others (turns n)) \<and> io_ok (file_io (kt_tick (turns n)))"
  shows "tui_steps E H io_ok w w'"
proof -
  have "fst r = Inr () \<longrightarrow> tui_steps E H io_ok w (snd r)" if "key_loop E H turns n w = Some r" for r
    using that
  proof (induction rule: key_loop_induct)
    case (stops n w)
    then show ?case using assms(2) by (simp add: lawful_def)
  next
    case (turn n w w' r)
    have "tui_steps E H io_ok w (kt_others (turns n) w)" using assms(2) by (simp add: lawful_def)
    moreover have "tui_step E H io_ok (kt_others (turns n) w) w'" using turn.hyps assms(2) by (blast intro: tui_step.key)
    ultimately show ?case using turn.IH by (meson rtranclp.rtrancl_into_rtrancl rtranclp_trans)
  qed simp
  from this [OF assms(1)] show ?thesis by simp
qed

lemma take_resize_steps: "take_resize fe w s = (w', s') \<Longrightarrow> tui_steps E H io_ok w w'"
  by (auto simp: take_resize_def intro: tui_step.resized split: if_splits)

lemma redraw_steps: "redraw E F fe w s = (w', s', os) \<Longrightarrow> tui_steps E H io_ok w w'"
  by (auto simp: redraw_def intro: tui_step.drawn split: if_splits prod.splits)

lemma tui_frameE:
  assumes "tui_frame E H F fe w s = Some (Inr u, w', s', os)"
  obtains w1 s1 w2 w3 where "take_resize fe (fe_others fe w) s = (w1, s1)" and "poll_mining E H (fe_poll fe) w1 = (Inr (), w2)"
    and "key_loop E H (fe_keys fe) 0 w2 = Some (Inr (), w3)" and "redraw E F fe w3 s1 = (w', s', os)"
  using assms that by (auto simp: tui_frame_def split: prod.splits sum.splits option.splits)

lemma tui_frame_steps:
  assumes "tui_frame E H F fe w s = Some (Inr u, w', s', os)" and "frame_lawful E H io_ok fe"
  shows "tui_steps E H io_ok w w'"
  using assms(1)
proof (rule tui_frameE)
  fix w1 s1 w2 w3
  assume a: "take_resize fe (fe_others fe w) s = (w1, s1)" "poll_mining E H (fe_poll fe) w1 = (Inr (), w2)"
    "key_loop E H (fe_keys fe) 0 w2 = Some (Inr (), w3)" "redraw E F fe w3 s1 = (w', s', os)"
  have "tui_steps E H io_ok w (fe_others fe w)" using assms(2) by (simp add: frame_lawful_def lawful_def)
  also have "tui_steps E H io_ok (fe_others fe w) w1" by (rule take_resize_steps [OF a(1)])
  also have "tui_step E H io_ok w1 w2" using tui_step.poll [OF a(2)] assms(2) by (simp add: frame_lawful_def)
  also have "tui_steps E H io_ok w2 w3" using key_loop_steps [OF a(3)] assms(2) by (simp add: frame_lawful_def)
  also have "tui_steps E H io_ok w3 w'" by (rule redraw_steps [OF a(4)])
  finally show ?thesis .
qed

section \<open>The end of a run\<close>

lemma redraw_console: "redraw E F fe w s = (w', s', os) \<Longrightarrow> w_running w' = w_running w \<and> w_input w' = w_input w"
  by (auto simp: redraw_def split: if_splits prod.splits)

text \<open>Input stops arriving at some turn of the key loop, and nothing sets the running flag again.\<close>

definition frame_fair :: "frame_env \<Rightarrow> bool" where
  "frame_fair fe \<longleftrightarrow> never_restarts (fe_others fe) \<and>
     (\<forall>n. never_restarts (kt_others (fe_keys fe n))) \<and> (\<exists>N. \<forall>n \<ge> N. quiet (kt_others (fe_keys fe n)))"

lemma tui_frame_returns:
  assumes "frame_fair fe"
  shows "\<exists>r. tui_frame E H F fe w s = Some r"
proof -
  from assms obtain N where "\<forall>n \<ge> N. quiet (kt_others (fe_keys fe n))" by (auto simp: frame_fair_def)
  then have "\<exists>r. key_loop E H (fe_keys fe) 0 w = Some r" for w by (rule key_loop_eventually_quiet) simp
  then obtain r where loop: "key_loop E H (fe_keys fe) 0 w = Some (r w)" for w by metis
  obtain w1 s1 where "take_resize fe (fe_others fe w) s = (w1, s1)" by fastforce
  moreover obtain q w2 where "poll_mining E H (fe_poll fe) w1 = (q, w2)" by fastforce
  ultimately show ?thesis
    using loop [of w2] by (cases q; cases "r w2"; cases "fst (r w2)") (auto simp: tui_frame_def intro: prod_cases3)
qed

lemma tui_frame_running:
  assumes "tui_frame E H F fe w s = Some (Inr u, w', s', os)" and "frame_fair fe" and "w_running w'"
  shows "w_running (fe_others fe w)"
  using assms(1)
proof (rule tui_frameE)
  fix w1 s1 w2 w3
  assume a: "take_resize fe (fe_others fe w) s = (w1, s1)" "poll_mining E H (fe_poll fe) w1 = (Inr (), w2)"
    "key_loop E H (fe_keys fe) 0 w2 = Some (Inr (), w3)" "redraw E F fe w3 s1 = (w', s', os)"
  from assms(3) redraw_console [OF a(4)] have "w_running w3" by simp
  with key_loop_running [OF a(3)] assms(2) have "w_running w2" by (simp add: frame_fair_def)
  with poll_mining_console [OF a(2)] have "w_running w1" by (simp add: keeps_console_def)
  with a(1) show ?thesis by (auto simp: take_resize_def on_app_def split: if_splits)
qed

lemma tui_loop_stopped [simp]: "\<not> w_running w \<Longrightarrow> tui_loop E H F frames n w s os = Some (Inr (), w, s, os)"
  by (simp add: tui_loop.simps)

lemma tui_loop_returns:
  assumes "\<forall>n. frame_fair (frames n)" and "\<forall>w. \<not> w_running (fe_others (frames N) w)" and "n \<le> N"
  shows "\<exists>r. tui_loop E H F frames n w s os = Some r"
proof -
  have frame: "\<exists>r. tui_loop E H F frames n w s os = Some r"
    if IH: "\<And>w' s' os' u. tui_frame E H F (frames n) w s = Some (Inr u, w', s', os') \<Longrightarrow>
      \<exists>r. tui_loop E H F frames (n + 1) w' s' (os @ os') = Some r" for n w s os
    using tui_frame_returns [OF assms(1) [rule_format], of E H F n w s] IH
    by (auto simp: tui_loop.simps [of E H F frames n w s os] split: sum.split)
  show ?thesis
    using assms(3)
  proof (induction n arbitrary: w s os rule: inc_induct)
    case base
    show ?case
      by (rule frame) (use tui_frame_running [OF _ assms(1) [rule_format]] assms(2) in \<open>fastforce\<close>)
  next
    case (step n)
    show ?case by (rule frame) (use step.IH in simp)
  qed
qed

lemma tui_loop_induct [consumes 1, case_names stops crash frame]:
  assumes "tui_loop E H F frames n w s os = Some r"
    and "\<And>n w s os. \<not> w_running w \<Longrightarrow> P n w s os (Inr (), w, s, os)"
    and "\<And>n w s os c w' s' os'. w_running w \<Longrightarrow> tui_frame E H F (frames n) w s = Some (Inl c, w', s', os') \<Longrightarrow>
      P n w s os (Inl c, w', s', os @ os')"
    and "\<And>n w s os w' s' os' r. w_running w \<Longrightarrow> tui_frame E H F (frames n) w s = Some (Inr (), w', s', os') \<Longrightarrow>
      P (n + 1) w' s' (os @ os') r \<Longrightarrow> P n w s os r"
  shows "P n w s os r"
proof -
  have "E' = E \<longrightarrow> H' = H \<longrightarrow> F' = F \<longrightarrow> frames' = frames \<longrightarrow> P n w s os r"
    if "tui_loop E' H' F' frames' n w s os = Some r" for E' H' F' frames' n w s os r
  proof (rule tui_loop.raw_induct [OF _ that], intro impI)
    fix f E' H' F' frames' n w s os r
    assume IH: "\<And>E' H' F' frames' n w s os r. f E' H' F' frames' n w s os = Some r \<Longrightarrow>
        E' = E \<longrightarrow> H' = H \<longrightarrow> F' = F \<longrightarrow> frames' = frames \<longrightarrow> P n w s os r"
      and body: "(if \<not> w_running w then Some (Inr (), w, s, os)
        else case tui_frame E' H' F' (frames' n) w s of None \<Rightarrow> None
        | Some (res, w', s', os') \<Rightarrow> (case res of Inl c \<Rightarrow> Some (Inl c, w', s', os @ os')
            | Inr _ \<Rightarrow> f E' H' F' frames' (n + 1) w' s' (os @ os'))) = Some r"
      and eq: "E' = E" "H' = H" "F' = F" "frames' = frames"
    show "P n w s os r"
      using body IH [of E H F frames "n + 1"] assms(2) [of w n s os] assms(3) [of w n s] assms(4) [of w n s]
      by (cases r rule: prod_cases4) (auto simp: eq split: option.splits sum.splits if_splits)
  qed
  with assms(1) show ?thesis by simp
qed

text \<open>A run that ends normally is a sequence of steps, and ends because the running flag is off.\<close>

lemma tui_loop_steps:
  assumes "tui_loop E H F frames n w s os = Some (Inr u, w', s', os')" and "\<forall>n. frame_lawful E H io_ok (frames n)"
  shows "tui_steps E H io_ok w w' \<and> \<not> w_running w'"
proof -
  have "fst r = Inr () \<longrightarrow> tui_steps E H io_ok w (fst (snd r)) \<and> \<not> w_running (fst (snd r))"
    if "tui_loop E H F frames n w s os = Some r" for r
    using that
  proof (induction rule: tui_loop_induct)
    case (frame n w s os w' s' os' r)
    then show ?case using tui_frame_steps [OF frame.hyps(2), of io_ok] assms(2) by (auto intro: rtranclp_trans)
  qed simp_all
  from this [OF assms(1)] show ?thesis by simp
qed

lemma tui_steps_reachable:
  "tui_steps E H io_ok w w' \<Longrightarrow> tui_reachable E H io_ok fs w \<Longrightarrow> tui_reachable E H io_ok fs w'"
  by (induction rule: rtranclp_induct) (auto intro: tui_reachable.step)

text \<open>No handler waits for ever: the only wait is for a worker that has been told to stop.\<close>

lemma app_append_not_blocked: "fst (app_append E H io b w) \<noteq> Inl Blocked"
  by (auto simp: app_append_def split: prod.split sum.split)

lemma poll_mining_not_blocked: "poll_mining E H t w \<noteq> (Inl Blocked, w')"
  using app_append_not_blocked [of E H "file_io t" "ms_mined_block (mining (w_app w))" "poll_ready w"]
  by (auto simp: poll_mining_def Let_def split: prod.splits sum.splits if_splits)

lemma handler_not_blocked:
  "do_genesis E H t w \<noteq> (Inl Blocked, w')" "do_append_signed_block E H t w \<noteq> (Inl Blocked, w')"
  "start_mining E t w \<noteq> (Inl Blocked, w')" "do_clear_store E t w \<noteq> (Inl Blocked, w')"
proof -
  have app: "app_append E H io b w \<noteq> (Inl Blocked, w')" for io b w w' using app_append_not_blocked by (metis fst_conv)
  show "do_genesis E H t w \<noteq> (Inl Blocked, w')"
    by (auto simp: do_genesis_def Let_def app split: prod.splits sum.splits if_splits)
  show "do_append_signed_block E H t w \<noteq> (Inl Blocked, w')"
    by (auto simp: do_append_signed_block_def Let_def app split: prod.splits sum.splits if_splits option.splits)
  show "start_mining E t w \<noteq> (Inl Blocked, w')"
    by (auto simp: start_mining_def Let_def split: sum.splits if_splits)
  show "do_clear_store E t w \<noteq> (Inl Blocked, w')" by (cases rule: do_clear_store_cases [of E t w]) auto
qed

lemma key_event_not_blocked: "key_event E H now t w \<noteq> Some (Inl Blocked, w')"
  by (auto simp: key_event_def handle_key_def then_drain_def handler_not_blocked Let_def
      split: prod.splits sum.splits if_splits)

lemma key_loop_not_blocked: "key_loop E H turns n w = Some r \<Longrightarrow> fst r \<noteq> Inl Blocked"
  by (induction rule: key_loop_induct) (auto simp: key_event_not_blocked)

lemma tui_frame_not_blocked: "tui_frame E H F fe w s = Some (res, w', s', os) \<Longrightarrow> res \<noteq> Inl Blocked"
  by (auto simp: tui_frame_def poll_mining_not_blocked split: prod.splits sum.splits option.splits
      dest!: key_loop_not_blocked)

lemma tui_loop_not_blocked: "tui_loop E H F frames n w s os = Some r \<Longrightarrow> fst r \<noteq> Inl Blocked"
  by (induction rule: tui_loop_induct) (auto dest: tui_frame_not_blocked)

lemma tui_finish_Inr:
  assumes "tui_finish E t w = (Inr u, w')"
  shows "app_chain (w_app w') = app_chain (w_app w) \<and> w_fs w' = w_fs w \<and> ms_worker (mining (w_app w')) = NoThread"
  using assms
  by (auto simp: tui_finish_def stop_mining_def Let_def split: option.splits if_splits elim!: join_worker_Some)

text \<open>Nor does the end of the program: a worker that is still searching has been cancelled before it is waited for.\<close>

lemma tui_finish_returns:
  assumes "sync_ok (w_app w)"
  obtains w' where "tui_finish E t w = (Inr (), w')"
proof -
  let ?app = "w_app (stop_mining t w)"
  have "ms_cancel (mining ?app) \<or> \<not> hashing (ms_worker (mining ?app))"
  proof (cases "ms_mining (mining (w_app w))")
    case True
    then show ?thesis by (simp add: stop_mining_def)
  next
    case False
    with assms have "\<not> in_search (ms_worker (mining (w_app w)))" by (auto simp: sync_ok_def)
    with False show ?thesis by (cases "ms_worker (mining (w_app w))") (simp_all add: stop_mining_def)
  qed
  then obtain ms where "join_worker E t ?app = Some (?app\<lparr>mining := ms\<rparr>)" by (rule join_worker_returns)
  with that show ?thesis by (simp add: tui_finish_def Let_def)
qed

lemma tui_start_outcomes:
  "(\<exists>e. tui_start E H io tb1 tb2 tb3 now fs = Inl (Uncaught e)) \<or> tui_start E H io tb1 tb2 tb3 now fs = Inr (Inl 1) \<or>
     (\<exists>w. tui_start E H io tb1 tb2 tb3 now fs = Inr (Inr w))"
  by (simp add: tui_start_def Let_def split: prod.split sum.split)

lemma tui_mainE:
  assumes "tui_main E H F ss fs t = Some (Inr code, Some w', cs, t', os)"
  obtains tb1 tb2 tb3 w0 w s' os' where "ss_times ss = (tb1, tb2, tb3)"
    and "tui_start E H (ss_io ss) tb1 tb2 tb3 (ss_debounce_now ss) fs = Inr (Inr w0)"
    and "tui_loop E H F (ss_frames ss) 0 w0 (new_Screen ss) [] = Some (Inr (), w, s', os')"
    and "tui_finish E (ss_end ss) w = (Inr (), w')"
    and "code = 0" and "cs = crypto_shutdown (hashing (ms_worker (mining (w_app w')))) Crypto_ready"
    and "os = new_ScreenGuard @ os' @ destroy_ScreenGuard"
    and "t' = destroy_TermiosGuard (ss_tty_end ss) (fst (new_TermiosGuard (ss_tty_begin ss) t))
      (snd (new_TermiosGuard (ss_tty_begin ss) t))"
  using assms that by (auto simp: tui_main_def split: prod.splits sum.splits option.splits)

section \<open>A concrete run\<close>

text \<open>A session in a fresh directory in which no key is pressed and the interrupt comes before the first frame.\<close>

definition sample_turn :: key_turn where
  "sample_turn = \<lparr>kt_others = id, kt_now = 0, kt_tick = sample_tick\<rparr>"

definition sample_frame :: frame_env where
  "sample_frame = \<lparr>fe_others = (\<lambda>w. w\<lparr>w_running := False\<rparr>), fe_resized = True, fe_winsize = Some (50, 160),
     fe_poll = sample_tick, fe_keys = (\<lambda>_. sample_turn), fe_now = 0, fe_toast_now = 0, fe_first = 0, fe_nowt = 0,
     fe_fps_now = 33000000\<rparr>"

definition sample_tui_session :: session where
  "sample_tui_session = \<lparr>ss_tty_begin = sample_tty_calls, ss_tty_end = sample_tty_calls, ss_io = reliable_io,
     ss_times = (''a'', ''b'', ''c''), ss_fps_last = 0, ss_winsize = None, ss_debounce_now = 0, ss_last_draw = 0,
     ss_frames = (\<lambda>_. sample_frame), ss_end = sample_tick\<rparr>"

lemma sample_frame_fair: "frame_fair sample_frame"
  by (simp add: frame_fair_def sample_frame_def sample_turn_def never_restarts_def quiet_def)

lemma sample_frame_lawful: "io_ok reliable_io \<Longrightarrow> frame_lawful E H io_ok sample_frame"
  by (simp add: frame_lawful_def sample_frame_def sample_turn_def sample_tick_def lawful_def tui_step.signal [unfolded on_sigint_def] r_into_rtranclp)

lemma sample_tui_frame:
  "\<exists>w s os. tui_frame sample_openssl sample_host sample_fp sample_frame sample_world s0 = Some (Inr (), w, s, os) \<and>
    \<not> w_running w \<and> app_chain (w_app w) = new_Chain default_config"
proof -
  let ?w = "on_app (\<lambda>app. app\<lparr>dirty := True\<rparr>) (sample_world\<lparr>w_running := False\<rparr>)"
  obtain s1 where res: "take_resize sample_frame (sample_world\<lparr>w_running := False\<rparr>) s0 = (?w, s1)"
    by (auto simp: take_resize_def sample_frame_def)
  have poll: "poll_mining sample_openssl sample_host (fe_poll sample_frame) ?w = (Inr (), ?w)"
    by (simp add: poll_mining_def new_MiningState_def)
  have "key_event E H now t ?w = None" for E H now t
    by (simp add: key_event_None) (simp add: on_app_def)
  then have keys: "key_loop sample_openssl sample_host (fe_keys sample_frame) 0 ?w = Some (Inr (), ?w)"
    by (simp add: key_loop.simps [of _ _ _ 0] sample_frame_def sample_turn_def)
  obtain w s os where draw: "redraw sample_openssl sample_fp sample_frame ?w s1 = (w, s, os)" by (rule prod_cases3)
  then have "\<not> w_running w" using redraw_console [OF draw] by (simp add: on_app_def)
  moreover have "app_chain (w_app w) = new_Chain default_config"
    using draw by (auto simp: redraw_def split: if_splits prod.splits dest!: draw_app)
  moreover have "fe_others sample_frame sample_world = sample_world\<lparr>w_running := False\<rparr>" by (simp add: sample_frame_def)
  ultimately show ?thesis using res poll keys draw by (simp add: tui_frame_def)
qed

lemma sample_tui_main:
  "\<exists>w os. tui_main sample_openssl sample_host sample_fp sample_tui_session sample_fs sample_tty =
     Some (Inr 0, Some w, Crypto_released, sample_tty, os) \<and> blocks (app_chain (w_app w)) = []"
proof -
  obtain w s os where f: "tui_frame sample_openssl sample_host sample_fp sample_frame sample_world (new_Screen sample_tui_session) =
      Some (Inr (), w, s, os)" and "\<not> w_running w" and c: "app_chain (w_app w) = new_Chain default_config"
    using sample_tui_frame by blast
  moreover have "w_running sample_world" by (simp add: sample_world_def)
  ultimately have loop: "tui_loop sample_openssl sample_host sample_fp (\<lambda>_. sample_frame) 0 sample_world
      (new_Screen sample_tui_session) [] = Some (Inr (), w, s, os)" by (simp add: tui_loop.simps [of _ _ _ _ 0])
  have "tui_steps sample_openssl sample_host (\<lambda>_. True) sample_world w"
    by (rule tui_frame_steps [OF f sample_frame_lawful]) simp
  from tui_steps_reachable [OF this sample_world_reachable] have "sync_ok (w_app w)" by (simp add: tui_reachable_sync)
  then obtain w' where fin: "tui_finish sample_openssl sample_tick w = (Inr (), w')" by (rule tui_finish_returns)
  obtain g t1 where g: "new_TermiosGuard sample_tty_calls sample_tty = (g, t1)" by fastforce
  have "destroy_TermiosGuard sample_tty_calls g t1 = sample_tty"
    using termios_guard_restores [OF g] by (simp add: sample_tty_calls_def)
  with loop g sample_tui_start c fin tui_finish_Inr [OF fin] show ?thesis
    by (simp add: tui_main_def sample_tui_session_def new_Chain_def crypto_shutdown_def)
qed

section \<open>Properties\<close>

text \<open>C18: the key loop returns once input stops arriving, however long the keys took and whatever they
  did; it never waits for a worker for ever, and when it returns normally it has read everything.\<close>

theorem key_loop_terminates:
  assumes "\<forall>n \<ge> N. quiet (kt_others (turns n))"
  shows "\<exists>res w'. key_loop E H turns 0 w = Some (res, w') \<and> res \<noteq> Inl Blocked \<and> (res = Inr () \<longrightarrow> w_input w' = [])"
proof -
  obtain res w' where loop: "key_loop E H turns 0 w = Some (res, w')"
    using key_loop_eventually_quiet [OF assms, of 0 E H w] by auto
  have "fst r = Inr () \<longrightarrow> w_input (snd r) = []" if "key_loop E H turns n w = Some r" for n w r
    using that by (induction rule: key_loop_induct) (simp_all add: key_event_None)
  from this [OF loop] loop key_loop_not_blocked [OF loop] show ?thesis by simp
qed

theorem key_loop_terminates_witness:
  "\<exists>res w'. key_loop sample_openssl sample_host (\<lambda>_. sample_turn) 0 sample_pressed = Some (res, w') \<and>
     res \<noteq> Inl Blocked \<and> (res = Inr () \<longrightarrow> w_input w' = [])"
  by (rule key_loop_terminates [of 0]) (simp add: quiet_def sample_turn_def)

text \<open>C35: the key loop does not look at the running flag: while before every read some byte is there and all
  bytes that wait or arrive are bound to no key (and are not the escape character), a frame whose poll for a mined
  block went well never ends, whatever else signals, the user and the worker do. So nothing is drawn, no further mined block is taken over, and clearing the
  running flag has no effect.\<close>

theorem key_flood_never_returns:
  assumes "\<forall>n. floods (kt_others (fe_keys fe n))" and "\<forall>b \<in> set (w_input (fe_others fe w)). unbound b"
    and "poll_mining E H (fe_poll fe) (fst (take_resize fe (fe_others fe w) s)) = (Inr (), w')"
  shows "tui_frame E H F fe w s = None"
proof -
  have "w_input (fst (take_resize fe (fe_others fe w) s)) = w_input (fe_others fe w)"
    by (simp add: take_resize_def on_app_def)
  then have "\<forall>b \<in> set (w_input w'). unbound b"
    using poll_mining_console [OF assms(3)] assms(2) by (auto simp: keeps_console_def)
  from key_loop_flooded [OF assms(1) this, of E H 0] assms(3) show ?thesis
    by (auto simp: tui_frame_def split: prod.split)
qed

text \<open>An environment in which the letter \<open>z\<close> arrives before every read and the interrupt comes each time.\<close>

definition sample_flood :: frame_env where
  "sample_flood = sample_frame\<lparr>fe_keys := (\<lambda>_. sample_turn\<lparr>kt_others :=
     (\<lambda>w. w\<lparr>w_input := w_input w @ [0x7A], w_running := False\<rparr>)\<rparr>)\<rparr>"

theorem key_flood_never_returns_witness:
  "tui_frame sample_openssl sample_host sample_fp sample_flood sample_world (new_Screen sample_tui_session) = None"
proof (rule key_flood_never_returns)
  have "unbound 0x7A" by (simp add: unbound_def is_key_def key_of_def)
  then show "\<forall>n. floods (kt_others (fe_keys sample_flood n))" by (simp add: floods_def sample_flood_def)
  show "\<forall>b \<in> set (w_input (fe_others sample_flood sample_world)). unbound b"
    by (simp add: sample_flood_def sample_frame_def)
  show "poll_mining sample_openssl sample_host (fe_poll sample_flood)
      (fst (take_resize sample_flood (fe_others sample_flood sample_world) (new_Screen sample_tui_session))) =
    (Inr (), fst (take_resize sample_flood (fe_others sample_flood sample_world) (new_Screen sample_tui_session)))"
    by (simp add: poll_mining_def take_resize_def sample_flood_def sample_frame_def new_MiningState_def)
qed

text \<open>C17: the program ends after an interrupt. If in every frame the input stops arriving at some point, the
  interrupt comes in some frame, and what the others do are steps of the program, then \<open>main\<close> returns 0, or 1 when
  OpenSSL cannot be initialised, or the process has been ended before by an exception nobody catches or by
  \<open>std::terminate\<close>; it neither loops for ever nor waits for ever for the worker thread.\<close>

theorem tui_main_returns:
  assumes "\<forall>n. frame_fair (ss_frames ss n)" and "\<forall>w. \<not> w_running (fe_others (ss_frames ss N) w)"
    and "\<forall>n. frame_lawful E H (\<lambda>_. True) (ss_frames ss n)"
  shows "\<exists>res w cs t' os. tui_main E H F ss fs t = Some (res, w, cs, t', os) \<and>
    (res = Inr 0 \<or> res = Inr 1 \<or> res = Inl Terminated \<or> (\<exists>e. res = Inl (Uncaught e)))"
proof -
  obtain tb1 tb2 tb3 where times: "ss_times ss = (tb1, tb2, tb3)" by (metis prod_cases3)
  let ?start = "tui_start E H (ss_io ss) tb1 tb2 tb3 (ss_debounce_now ss) fs"
  consider e where "?start = Inl (Uncaught e)" | "?start = Inr (Inl 1)" | w0 where "?start = Inr (Inr w0)"
    using tui_start_outcomes by blast
  then show ?thesis
  proof cases
    case (3 w0)
    obtain r where loop: "tui_loop E H F (ss_frames ss) 0 w0 (new_Screen ss) [] = Some r"
      using tui_loop_returns [OF assms(1,2), of 0] by blast
    obtain res w s os where r: "r = (res, w, s, os)" by (metis prod_cases4)
    show ?thesis
    proof (cases res)
      case (Inl c)
      with tui_loop_not_blocked [OF loop] r have "c \<noteq> Blocked" by simp
      with Inl 3 loop r times show ?thesis by (cases c) (auto simp: tui_main_def split: prod.split)
    next
      case (Inr u)
      have "tui_reachable E H (\<lambda>_. True) fs w"
        using tui_steps_reachable [OF conjunct1 [OF tui_loop_steps [OF _ assms(3)]] tui_reachable.start [OF 3]] loop r Inr
        by blast
      then obtain w' where "tui_finish E (ss_end ss) w = (Inr (), w')"
        using tui_finish_returns [OF tui_reachable_sync] by blast
      with Inr 3 loop r times show ?thesis by (auto simp: tui_main_def split: prod.split)
    qed
  qed (auto simp: tui_main_def times split: prod.split)
qed

theorem tui_main_returns_witness:
  "\<exists>res w cs t' os. tui_main sample_openssl sample_host sample_fp sample_tui_session sample_fs sample_tty = Some (res, w, cs, t', os) \<and>
    (res = Inr 0 \<or> res = Inr 1 \<or> res = Inl Terminated \<or> (\<exists>e. res = Inl (Uncaught e)))"
  by (rule tui_main_returns [of _ 0])
    (simp_all add: sample_tui_session_def sample_frame_fair sample_frame_lawful, simp add: sample_frame_def)

text \<open>C16: a normal end is a clean end, when what the others do are steps of the program and the calls that set
  the terminal back succeed: the exit code is 0, the terminal has the settings it had, the cursor is shown again and
  the alternate screen left after everything else is written, the worker thread has ended before OpenSSL is released, so
  that nobody uses the library afterwards, and the chain satisfies its invariant.\<close>

theorem tui_main_clean_exit:
  assumes "tui_main E H F ss fs t = Some (Inr code, Some w, cs, t', os)"
    and "\<forall>n. frame_lawful E H (\<lambda>_. True) (ss_frames ss n)"
    and "tcsetattr_ok (ss_tty_end ss)" and "setfl_ok (ss_tty_end ss)"
  shows "code = 0 \<and> t' = t \<and> cs = Crypto_released \<and> ms_worker (mining (w_app w)) = NoThread \<and>
    chain_ok E (blocks (app_chain (w_app w))) \<and>
    (\<exists>frames. os = [AltScreenOn, HideCursor] @ frames @ [ShowCursor, AltScreenOff])"
  using assms(1)
proof (rule tui_mainE)
  fix tb1 tb2 tb3 w0 w1 s' os'
  assume start: "tui_start E H (ss_io ss) tb1 tb2 tb3 (ss_debounce_now ss) fs = Inr (Inr w0)"
    and loop: "tui_loop E H F (ss_frames ss) 0 w0 (new_Screen ss) [] = Some (Inr (), w1, s', os')"
    and fin: "tui_finish E (ss_end ss) w1 = (Inr (), w)"
    and res: "code = 0" "cs = crypto_shutdown (hashing (ms_worker (mining (w_app w)))) Crypto_ready"
      "os = new_ScreenGuard @ os' @ destroy_ScreenGuard"
    and t': "t' = destroy_TermiosGuard (ss_tty_end ss) (fst (new_TermiosGuard (ss_tty_begin ss) t))
      (snd (new_TermiosGuard (ss_tty_begin ss) t))"
  have "tui_reachable E H (\<lambda>_. True) fs w1"
    by (rule tui_steps_reachable [OF conjunct1 [OF tui_loop_steps [OF loop assms(2)]] tui_reachable.start [OF start]]) simp
  then have "chain_ok E (blocks (app_chain (w_app w1)))"
    using tui_reachable_invariant chain_reachable_ok by blast
  moreover have "t' = t" using termios_guard_restores [OF _ assms(3,4)] t' by simp
  ultimately show ?thesis
    using res tui_finish_Inr [OF fin] by (simp add: new_ScreenGuard_def destroy_ScreenGuard_def crypto_shutdown_def)
qed

theorem tui_main_clean_exit_witness:
  "\<exists>w os. tui_main sample_openssl sample_host sample_fp sample_tui_session sample_fs sample_tty =
      Some (Inr 0, Some w, Crypto_released, sample_tty, os) \<and> ms_worker (mining (w_app w)) = NoThread"
proof -
  obtain w os where run: "tui_main sample_openssl sample_host sample_fp sample_tui_session sample_fs sample_tty =
      Some (Inr 0, Some w, Crypto_released, sample_tty, os)" using sample_tui_main by blast
  with tui_main_clean_exit [OF run] show ?thesis
    by (simp add: sample_tui_session_def sample_frame_lawful sample_tty_calls_def)
qed

end
