(* ===== verification/Astro_Durability.thy ===== *)
theory Astro_Durability
  imports Astro_Chain_Store "HOL-Library.Sublist"
begin

text \<open>
  What a power failure leaves of the log: \<open>BlockStore::append_block\<close> of src/core/block_store.cpp flushes
  its stream and calls \<open>fsync\<close> on a second descriptor of the file, whose result it ignores.

  The operating system keeps what is written in memory until it is synchronised. All that is assumed of the
  medium is what POSIX says of \<open>fsync\<close>: after it has succeeded, the contents the file had then can be retrieved
  even after a power failure. The log is only appended to, so these contents stay its beginning. Of bytes written
  after the last successful \<open>fsync\<close> nothing is assumed: a power failure may leave all, some or none of them, or
  any other bytes in their place.
\<close>

section \<open>Files and the medium\<close>

text \<open>Beside the contents the processes see, for every file the contents at its last successful \<open>fsync\<close>.\<close>

record disk =
  seen :: fs
  stable :: "path \<Rightarrow> bytes"

definition file_content :: "fs \<Rightarrow> path \<Rightarrow> bytes" where
  "file_content fs p = (case files fs p of None \<Rightarrow> [] | Some c \<Rightarrow> c)"

definition disk_synced :: "disk \<Rightarrow> path \<Rightarrow> bool" where
  "disk_synced d p \<longleftrightarrow> stable d p = file_content (seen d) p"

text \<open>What may be found in a file that was only appended to since then.\<close>

definition survives :: "disk \<Rightarrow> path \<Rightarrow> bytes \<Rightarrow> bool" where
  "survives d p c \<longleftrightarrow> prefix (stable d p) c \<and> (disk_synced d p \<longrightarrow> c = stable d p)"

text \<open>The file system after a power failure that left the contents \<open>c\<close> in the file.\<close>

definition after_loss :: "path \<Rightarrow> bytes \<Rightarrow> disk \<Rightarrow> fs" where
  "after_loss p c d = (seen d)\<lparr>files := (files (seen d))(p \<mapsto> c)\<rparr>"

section \<open>The operations of the store\<close>

text \<open>\<open>synced\<close> is the outcome of \<open>::fsync\<close>, which the code does not look at.\<close>

definition fsync_fd :: "bool \<Rightarrow> BlockStore \<Rightarrow> disk \<Rightarrow> disk" where
  "fsync_fd synced store d =
     (if 0 \<le> log_fd store \<and> synced
      then d\<lparr>stable := (stable d)(log_path store := file_content (seen d) (log_path store))\<rparr>
      else d)"

definition append_block_synced ::
  "openssl \<Rightarrow> host \<Rightarrow> io \<Rightarrow> bool \<Rightarrow> BlockStore \<Rightarrow> Block \<Rightarrow> disk \<Rightarrow> (exn + unit) \<times> disk" where
  "append_block_synced E H io synced store block d =
     (case store_append_block E H io store block (seen d) of
        (Inl e, fs) \<Rightarrow> (Inl e, d\<lparr>seen := fs\<rparr>)
      | (Inr _, fs) \<Rightarrow> (Inr (), fsync_fd synced store (d\<lparr>seen := fs\<rparr>)))"

definition append_and_store_synced ::
  "openssl \<Rightarrow> host \<Rightarrow> io \<Rightarrow> bool \<Rightarrow> BlockStore \<Rightarrow> Block \<Rightarrow> Chain \<times> disk \<Rightarrow> (exn + ValidationResult) \<times> Chain \<times> disk" where
  "append_and_store_synced E H io synced store block = (\<lambda>(c, d).
     case validate_block E c block of
       Inl e \<Rightarrow> (Inl e, c, d)
     | Inr validation_result \<Rightarrow>
         if \<not> is_valid validation_result then (Inr validation_result, c, d)
         else case append_block_synced E H io synced store block d of
             (Inl _, d') \<Rightarrow> (Inr (reject NoError no_index), c, d')
           | (Inr _, d') \<Rightarrow> (Inr validation_result, c\<lparr>blocks := blocks c @ [block]\<rparr>, d'))"

text \<open>The moment of \<open>append_block\<close> when \<open>k\<close> bytes of the record have been handed to the system, before \<open>fsync\<close>.\<close>

definition append_interrupted :: "openssl \<Rightarrow> host \<Rightarrow> nat \<Rightarrow> BlockStore \<Rightarrow> Block \<Rightarrow> disk \<Rightarrow> disk" where
  "append_interrupted E H k store block d =
     d\<lparr>seen := append_file (log_path store) (take k (record_bytes E H block)) (seen d)\<rparr>"

lemma append_interrupted_append:
  assumes "ofstream_open io" and "ofstream_flushed io (length (record_bytes E H b)) = k"
  shows "append_interrupted E H k store b d = snd (append_block_synced E H io False store b d)"
  using assms
  by (simp add: append_interrupted_def append_block_synced_def store_append_block_def fsync_fd_def Let_def)

text \<open>What the processes see is what the operations without the medium do.\<close>

lemma fsync_fd_seen [simp]: "seen (fsync_fd synced store d) = seen d"
  by (simp add: fsync_fd_def)

lemma append_and_store_synced_seen:
  "append_and_store_synced E H io synced store b (c, d) = (r, c', d') \<Longrightarrow>
     append_and_store E H io store b (c, seen d) = (r, c', seen d')"
  by (auto simp: append_and_store_synced_def append_block_synced_def append_and_store_def
      split: sum.splits if_splits prod.splits)

section \<open>Journals that survive interruptions\<close>

text \<open>
  A journal whose last put may have been interrupted: what is found in it are the inputs before that put,
  or these and the last one.
\<close>

locale crash_journal = journaled put get ok holds step init content
  for put :: "'blk \<Rightarrow> 'log \<Rightarrow> 'log" and get and ok and holds and step :: "'blk \<Rightarrow> 'st \<Rightarrow> 'st option"
    and init :: 'st and content :: "'st \<Rightarrow> 'blk list" +
  fixes torn :: "'blk \<Rightarrow> 'log \<Rightarrow> 'log \<Rightarrow> bool"
  assumes torn_get: "holds l bs \<Longrightarrow> ok b \<Longrightarrow> torn b l l' \<Longrightarrow> get l' = Inr bs \<or> get l' = Inr (bs @ [b])"
begin

lemma torn_replay:
  assumes "in_step (s, l)" and "ok b" and "step b s = Some s'" and "torn b l l'"
  obtains (before) "get l' = Inr (content s)" and "replayable s"
  | (after) "get l' = Inr (content s')" and "replayable s'"
proof -
  from assms(1) have "replayable s" and "holds l (content s)" by (simp_all add: in_step_def)
  moreover from this assms(3) have "replayable s'" by (simp add: replayable_step)
  ultimately show thesis
    using torn_get [OF _ assms(2,4)] content_step [OF assms(3)] before after by auto
qed

end

text \<open>The log with a part of one more record, which may be none or all of it.\<close>

definition torn_log :: "openssl \<Rightarrow> host \<Rightarrow> BlockStore \<Rightarrow> Block \<Rightarrow> fs \<Rightarrow> fs \<Rightarrow> bool" where
  "torn_log E H store b fs fs' \<longleftrightarrow>
     (\<exists>j \<le> length (record_bytes E H b).
        files fs' (log_path store) = Some (file_content fs (log_path store) @ take j (record_bytes E H b)))"

lemma load_torn_log:
  assumes "log_holds E H store fs bs" and "storable H b" and "torn_log E H store b fs fs'"
  shows "load_all_blocks E H reliable_io store fs' = Inr bs \<or> load_all_blocks E H reliable_io store fs' = Inr (bs @ [b])"
proof -
  let ?r = "record_bytes E H b"
  from assms(1,3) obtain j where j: "j \<le> length ?r"
    and content: "files fs' (log_path store) = Some (log_of E H bs @ take j ?r)"
    by (auto simp: torn_log_def log_holds_def file_content_def)
  have load: "load_all_blocks E H reliable_io store fs' = load_loop E H (stream (log_of E H bs @ take j ?r))"
    by (rule load_all_blocks_log [OF content]) (simp add: reliable_io_def)
  show ?thesis
  proof (cases "j = length ?r")
    case True
    then have "take j ?r = log_of E H [b]" by simp
    with load assms(1,2) load_loop_log_stop [of H "bs @ [b]" "[]" E] show ?thesis by (simp add: log_holds_def)
  next
    case False
    then have "load_record E H (stream (take j ?r)) = Inr None"
      using load_record_torn [of "serialize_block b" "sha256 E (serialize_block b)" H j E] assms(2) j
      by (simp add: record_bytes_frame storable_def)
    with load assms(1) load_loop_log_stop [of H bs "take j ?r" E] show ?thesis by (simp add: log_holds_def)
  qed
qed

interpretation cj: crash_journal "store_put E H reliable_io store" "load_all_blocks E H reliable_io store"
  "storable H" "log_holds E H store" "chain_accept E" "new_Chain cfg" blocks "torn_log E H store" for E H store cfg
  by unfold_locales (rule load_torn_log)

section \<open>Sessions on a disk\<close>

text \<open>Blocks offered one after another, with file operations and synchronisation that succeed.\<close>

definition durable_session :: "openssl \<Rightarrow> host \<Rightarrow> BlockStore \<Rightarrow> Block list \<Rightarrow> Chain \<times> disk \<Rightarrow> Chain \<times> disk" where
  "durable_session E H store bs st = fold (\<lambda>b st. snd (append_and_store_synced E H reliable_io True store b st)) bs st"

definition disk_in_step :: "openssl \<Rightarrow> host \<Rightarrow> BlockStore \<Rightarrow> ChainConfig \<Rightarrow> Chain \<times> disk \<Rightarrow> bool" where
  "disk_in_step E H store cfg = (\<lambda>(c, d).
     jc.in_step E H store cfg (c, seen d) \<and> disk_synced d (log_path store) \<and> 0 \<le> log_fd store)"

lemma append_and_store_synced_keeps:
  assumes "disk_synced d (log_path store)" and "0 \<le> log_fd store"
    and "append_and_store_synced E H reliable_io True store b (c, d) = (r, c', d')"
  shows "disk_synced d' (log_path store)"
  using assms
  by (auto simp: append_and_store_synced_def append_block_synced_def reliable_append fsync_fd_def disk_synced_def
      split: sum.splits if_splits)

lemma disk_in_step_append:
  assumes "disk_in_step E H store cfg st" and "storable H b"
  shows "disk_in_step E H store cfg (snd (append_and_store_synced E H reliable_io True store b st))"
proof -
  obtain c d where st: "st = (c, d)" by fastforce
  obtain r c' d' where a: "append_and_store_synced E H reliable_io True store b (c, d) = (r, c', d')" by (rule prod_cases3)
  have "(c', seen d') = jc.submit E H store b (c, seen d)"
    using append_and_store_synced_seen [OF a] append_and_store_submit [of E H store b c "seen d"] by simp
  with assms st have "jc.in_step E H store cfg (c', seen d')"
    using jc.in_step_submit [of E H store cfg "(c, seen d)" b] by (simp add: disk_in_step_def)
  with assms(1) append_and_store_synced_keeps [OF _ _ a] show ?thesis by (simp add: st a disk_in_step_def)
qed

lemma disk_in_step_session:
  "disk_in_step E H store cfg st \<Longrightarrow> list_all (storable H) bs \<Longrightarrow> disk_in_step E H store cfg (durable_session E H store bs st)"
  unfolding durable_session_def by (induction bs arbitrary: st) (simp_all add: disk_in_step_append)

text \<open>A fresh store on a medium that has it.\<close>

definition fresh_disk :: "fs \<Rightarrow> disk" where
  "fresh_disk fs = \<lparr>seen = fs, stable = file_content fs\<rparr>"

lemma fresh_disk_in_step:
  assumes "new_BlockStore reliable_io dir fs = (Inr store, fs0)" and "files fs (path_join dir ''chain.log'') = None"
  shows "disk_in_step E H store cfg (new_Chain cfg, fresh_disk fs0)"
proof -
  have "0 \<le> log_fd store"
    using assms(1) by (auto simp: new_BlockStore_def open_write_log_def reliable_io_def Let_def split: if_splits)
  with new_store_in_step [OF assms] show ?thesis
    by (simp add: disk_in_step_def fresh_disk_def disk_synced_def)
qed

text \<open>When the bytes found after an interrupted append are some of those written, in order, the log is torn.\<close>

lemma interrupted_torn:
  assumes "disk_synced d (log_path store)"
    and "survives (append_interrupted E H k store b d) (log_path store) c"
    and "prefix c (file_content (seen (append_interrupted E H k store b d)) (log_path store))"
  shows "torn_log E H store b (seen d) (after_loss (log_path store) c (append_interrupted E H k store b d))"
proof -
  let ?p = "log_path store" and ?r = "record_bytes E H b"
  let ?old = "file_content (seen d) ?p"
  from assms have "prefix ?old c" and "prefix c (?old @ take k ?r)"
    by (auto simp: survives_def append_interrupted_def disk_synced_def append_file_def file_content_def)
  then obtain z where "c = ?old @ z" and "prefix z (take k ?r)" by (auto simp: prefix_def)
  moreover from this have "z = take (length z) ?r" "length z \<le> length ?r"
    by (auto simp: prefix_def dest: arg_cong [of _ _ length]) (metis append_eq_conv_conj take_take min.commute append_take_drop_id)
  ultimately show ?thesis by (auto simp: torn_log_def after_loss_def)
qed

text \<open>Whatever is found, the log before is its beginning.\<close>

lemma survivor_restored:
  assumes "disk_in_step E H store cfg (c, d)" and "prefix (file_content (seen d) (log_path store)) content"
    and "files fs (log_path store) = Some content"
  shows "(\<exists>e. load_all_blocks E H reliable_io store fs = Inl e) \<or>
    (\<exists>out new. restore_from_store E H reliable_io store fs (new_Chain cfg) = (out, c\<lparr>blocks := blocks c @ new\<rparr>))"
proof -
  from assms(1) have ok: "list_all (storable H) (blocks c)" "files (seen d) (log_path store) = Some (log_of E H (blocks c))"
    and replay: "jc.replayable E cfg c" by (simp_all add: disk_in_step_def jc.in_step_def log_holds_def)
  with assms(2) obtain tail where "content = log_of E H (blocks c) @ tail" by (auto simp: prefix_def file_content_def)
  then have load: "load_all_blocks E H reliable_io store fs = bindE (load_loop E H (stream tail)) (\<lambda>cs. Inr (blocks c @ cs))"
    using load_all_blocks_log [OF assms(3), of reliable_io E H] load_loop_log [OF ok(1)] by (simp add: reliable_io_def)
  show ?thesis
  proof (cases "load_loop E H (stream tail)")
    case (Inl e)
    with load show ?thesis by simp
  next
    case (Inr extra)
    with load restore_extended [OF _ replay, of H reliable_io store fs extra] show ?thesis by simp
  qed
qed

lemma durable_session_in_step:
  assumes "new_BlockStore reliable_io dir fs = (Inr store, fs0)" and "files fs (path_join dir ''chain.log'') = None"
    and "list_all (storable H) bs" and "durable_session E H store bs (new_Chain cfg, fresh_disk fs0) = (c, d)"
  shows "disk_in_step E H store cfg (c, d)"
  using disk_in_step_session [OF fresh_disk_in_step [OF assms(1,2)] assms(3), of E cfg] assms(4) by simp

text \<open>When the contents the chain agrees with are found again, the chain is restored.\<close>

lemma old_content_restored:
  assumes "disk_in_step E H store cfg (c, d)"
  shows "restore_from_store E H reliable_io store (after_loss (log_path store) (file_content (seen d) (log_path store)) d')
    (new_Chain cfg) = (Inr (), c)"
proof (rule in_step_restore)
  show "jc.in_step E H store cfg (c, after_loss (log_path store) (file_content (seen d) (log_path store)) d')"
    using assms by (auto simp: disk_in_step_def jc.in_step_def log_holds_def after_loss_def file_content_def)
qed

text \<open>On a synchronised disk only these contents survive.\<close>

lemma synced_survives: "disk_synced d p \<Longrightarrow> survives d p content \<longleftrightarrow> content = file_content (seen d) p"
  by (auto simp: survives_def disk_synced_def)

section \<open>A concrete disk\<close>

definition sample_disk :: disk where
  "sample_disk = snd (durable_session sample_openssl sample_host sample_store [sample_genesis]
     (new_Chain default_config, fresh_disk sample_fs_open))"

lemma sample_genesis_storable: "storable sample_host sample_genesis"
  using sample_block_storable by (simp add: sample_block_def sample_genesis_def)

lemma sample_durable_session:
  "durable_session sample_openssl sample_host sample_store [sample_genesis] (new_Chain default_config, fresh_disk sample_fs_open) =
     (sample_chain, sample_disk)"
proof -
  obtain r c d where a: "append_and_store_synced sample_openssl sample_host reliable_io True sample_store sample_genesis
      (new_Chain default_config, fresh_disk sample_fs_open) = (r, c, d)" by (rule prod_cases3)
  have "c = sample_chain"
    using append_and_store_synced_seen [OF a] sample_genesis_accepted
      append_and_store_submit [of sample_openssl sample_host sample_store sample_genesis "new_Chain default_config"
        "seen (fresh_disk sample_fs_open)"]
    by (simp add: jc.submit_def)
  with a show ?thesis by (simp add: durable_session_def sample_disk_def)
qed

lemma sample_disk_in_step: "disk_in_step sample_openssl sample_host sample_store default_config (sample_chain, sample_disk)"
  by (rule durable_session_in_step [OF sample_new_store _ _ sample_durable_session])
    (simp_all add: sample_fs_def sample_genesis_storable)

section \<open>Properties\<close>

text \<open>C4: a power failure during an append loses no block that was acknowledged before, provided the file
  operations and every \<open>fsync\<close> until then succeeded and the blocks are storable. Whatever bytes are found in the
  log behind those synchronised, loading throws or \<open>restore_from_store\<close> rebuilds a chain that begins with the
  chain as it was; and when the bytes found are a beginning of what was written, \<open>restore_from_store\<close> returns
  and rebuilds exactly the chain as it was, or the chain with the new block.\<close>

theorem power_loss_recovers:
  assumes "new_BlockStore reliable_io dir fs = (Inr store, fs0)"
    and "files fs (path_join dir ''chain.log'') = None"
    and "list_all (storable H) bs" and "storable H b"
    and "durable_session E H store bs (new_Chain cfg, fresh_disk fs0) = (c, d)"
    and "append_block E b c = (Inr r, c')" and "is_valid r"
    and "survives (append_interrupted E H k store b d) (log_path store) content"
    and "fs1 = after_loss (log_path store) content (append_interrupted E H k store b d)"
  shows "((\<exists>e. load_all_blocks E H reliable_io store fs1 = Inl e) \<or>
      (\<exists>out new. restore_from_store E H reliable_io store fs1 (new_Chain cfg) = (out, c\<lparr>blocks := blocks c @ new\<rparr>))) \<and>
    (prefix content (file_content (seen (append_interrupted E H k store b d)) (log_path store)) \<longrightarrow>
      restore_from_store E H reliable_io store fs1 (new_Chain cfg) = (Inr (), c) \<or>
      restore_from_store E H reliable_io store fs1 (new_Chain cfg) = (Inr (), c'))"
proof (intro conjI impI)
  have step: "disk_in_step E H store cfg (c, d)" by (rule durable_session_in_step [OF assms(1-3,5)])
  then have st: "jc.in_step E H store cfg (c, seen d)" and synced: "disk_synced d (log_path store)"
    by (simp_all add: disk_in_step_def)
  have "prefix (file_content (seen d) (log_path store)) content"
    using assms(8) synced by (simp add: survives_def append_interrupted_def disk_synced_def)
  then show "(\<exists>e. load_all_blocks E H reliable_io store fs1 = Inl e) \<or>
      (\<exists>out new. restore_from_store E H reliable_io store fs1 (new_Chain cfg) = (out, c\<lparr>blocks := blocks c @ new\<rparr>))"
    by (rule survivor_restored [OF step]) (simp add: assms(9) after_loss_def)
  assume "prefix content (file_content (seen (append_interrupted E H k store b d)) (log_path store))"
  then have torn: "torn_log E H store b (seen d) fs1"
    unfolding assms(9) by (rule interrupted_torn [OF synced assms(8)])
  have "chain_accept E b c = Some c'" using assms(6,7) by (simp add: chain_accept_def)
  from st assms(4) this torn show "restore_from_store E H reliable_io store fs1 (new_Chain cfg) = (Inr (), c) \<or>
      restore_from_store E H reliable_io store fs1 (new_Chain cfg) = (Inr (), c')"
    by (rule cj.torn_replay) (auto dest: restore_replayable)
qed

theorem power_loss_recovers_witness:
  "\<exists>fs1. files fs1 (log_path sample_store) = Some (record_bytes sample_openssl sample_host sample_genesis) \<and>
     (restore_from_store sample_openssl sample_host reliable_io sample_store fs1 (new_Chain default_config) = (Inr (), sample_chain) \<or>
      restore_from_store sample_openssl sample_host reliable_io sample_store fs1 (new_Chain default_config) =
        (Inr (), sample_chain\<lparr>blocks := blocks sample_chain @ [sample_next]\<rparr>))"
proof -
  let ?d = "append_interrupted sample_openssl sample_host 5 sample_store sample_next sample_disk"
  let ?c = "file_content (seen sample_disk) (log_path sample_store)"
  have c: "?c = record_bytes sample_openssl sample_host sample_genesis"
    using sample_disk_in_step by (simp add: disk_in_step_def jc.in_step_def log_holds_def file_content_def sample_chain_def)
  have survivor: "survives ?d (log_path sample_store) ?c"
    using sample_disk_in_step by (simp add: survives_def append_interrupted_def disk_in_step_def disk_synced_def)
  have "prefix ?c (file_content (seen ?d) (log_path sample_store))"
    by (auto simp: append_interrupted_def append_file_def file_content_def split: option.split)
  with power_loss_recovers [OF sample_new_store _ _ sample_next_storable sample_durable_session sample_next_accepted _ survivor refl]
  show ?thesis
    by (intro exI [of _ "after_loss (log_path sample_store) ?c ?d"])
      (simp add: sample_fs_def sample_genesis_storable c, simp add: after_loss_def)
qed

text \<open>C36: the result of \<open>fsync\<close> is ignored: when it fails, the append is still reported as successful and
  the chain extended, but a power failure may leave the log, and the chain restored from it, without the
  block; when it succeeds, only contents survive from which the extended chain is restored.\<close>

theorem fsync_decides_durability:
  assumes "disk_in_step E H store cfg (c, d)" and "append_block E b c = (Inr r, c')" and "is_valid r" and "storable H b"
  shows "\<exists>d'. append_and_store_synced E H reliable_io synced store b (c, d) = (Inr r, c', d') \<and>
    (if synced
     then \<forall>content. survives d' (log_path store) content \<longrightarrow>
       restore_from_store E H reliable_io store (after_loss (log_path store) content d') (new_Chain cfg) = (Inr (), c')
     else \<exists>content. survives d' (log_path store) content \<and>
       restore_from_store E H reliable_io store (after_loss (log_path store) content d') (new_Chain cfg) = (Inr (), c))"
proof -
  let ?p = "log_path store"
  let ?d = "d\<lparr>seen := store_put E H reliable_io store b (seen d)\<rparr>"
  have a: "append_and_store_synced E H reliable_io synced store b (c, d) = (Inr r, c', fsync_fd synced store ?d)"
    using assms(2,3)
    by (auto simp: append_and_store_synced_def append_block_synced_def append_block_def reliable_append
        split: sum.splits if_splits)
  show ?thesis
  proof (cases synced)
    case True
    with a disk_in_step_append [OF assms(1,4)] have ok: "disk_in_step E H store cfg (c', fsync_fd True store ?d)" by simp
    then have "disk_synced (fsync_fd True store ?d) ?p" by (simp add: disk_in_step_def)
    with a True old_content_restored [OF ok, of "fsync_fd True store ?d"] show ?thesis
      by (simp add: synced_survives)
  next
    case False
    have "survives ?d ?p (file_content (seen d) ?p)"
      using assms(1) by (simp add: survives_def disk_in_step_def disk_synced_def)
    with a False old_content_restored [OF assms(1), of ?d] show ?thesis by (auto simp: fsync_fd_def)
  qed
qed

theorem fsync_decides_durability_witness:
  "\<exists>d'. append_and_store_synced sample_openssl sample_host reliable_io False sample_store sample_next (sample_chain, sample_disk) =
      (Inr accept, sample_chain\<lparr>blocks := blocks sample_chain @ [sample_next]\<rparr>, d') \<and>
    (\<exists>content. survives d' (log_path sample_store) content \<and>
       restore_from_store sample_openssl sample_host reliable_io sample_store (after_loss (log_path sample_store) content d')
         (new_Chain default_config) = (Inr (), sample_chain))"
  using fsync_decides_durability [OF sample_disk_in_step sample_next_accepted _ sample_next_storable, of False] by simp

end
