(* ===== verification/Astro_Lifetime.thy ===== *)
theory Astro_Lifetime
  imports Astro_Tui_Main Astro_Durability
begin

text \<open>
  The terminal interface over its whole life: sessions that follow one another on the same file. File
  operations succeed here, and a session ends between two steps of its event loop, by a quit, an interrupt or
  by being killed there; the last one may also be killed while it appends a block. A session that was killed
  inside an append and is followed by others is not a life in this sense: its incomplete record hides what
  they append, as \<open>Astro_Block_Store\<close> shows. What happens when the
  power fails is in \<open>Astro_Durability\<close>.
\<close>

section \<open>Lives\<close>

inductive life_step :: "openssl \<Rightarrow> host \<Rightarrow> World \<Rightarrow> World \<Rightarrow> bool" for E H where
  runs: "tui_step E H (\<lambda>io. io = reliable_io) w w' \<Longrightarrow> life_step E H w w'"
| restarts: "tui_start E H reliable_io tb1 tb2 tb3 now (w_fs w) = Inr (Inr w') \<Longrightarrow>
    list_all (storable H) (blocks (app_chain (w_app w))) \<Longrightarrow> life_step E H w w'"

inductive tui_life :: "openssl \<Rightarrow> host \<Rightarrow> fs \<Rightarrow> World \<Rightarrow> bool" for E H fs where
  begins: "tui_start E H reliable_io tb1 tb2 tb3 now fs = Inr (Inr w) \<Longrightarrow> tui_life E H fs w"
| goes_on: "tui_life E H fs w \<Longrightarrow> life_step E H w w' \<Longrightarrow> tui_life E H fs w'"

text \<open>
  What a session that is killed leaves of the log, and the block it may have been appending: between two
  steps the file as it is, and inside \<open>append_block\<close>, when the validation has accepted the block, the file
  with as much of the record as has been handed over.
\<close>

inductive killed :: "openssl \<Rightarrow> host \<Rightarrow> World \<Rightarrow> Block list \<Rightarrow> fs \<Rightarrow> bool" for E H w where
  between: "killed E H w [] (w_fs w)"
| appending: "validate_block E (app_chain (w_app w)) b = Inr r \<Longrightarrow> is_valid r \<Longrightarrow>
    store_append_block E H io data_store b (w_fs w) = (out, fs') \<Longrightarrow> killed E H w [b] fs'"

text \<open>What holds throughout: the chain is one that appending can make, the log holds it, the interface is in order.\<close>

definition life_ok :: "openssl \<Rightarrow> host \<Rightarrow> World \<Rightarrow> bool" where
  "life_ok E H w \<longleftrightarrow> crypto_init E \<and> app_store (w_app w) = data_store \<and> logged E H data_store (ledger w) \<and>
     chain_reachable E (app_chain (w_app w)) \<and> ui_ok (w_app w)"

lemma tui_start_ok:
  assumes "tui_start E H io tb1 tb2 tb3 now fs = Inr (Inr w)"
  shows "crypto_init E \<and> chain_reachable E (app_chain (w_app w)) \<and> ui_ok (w_app w)"
proof -
  have "crypto_init E" using assms by (rule tui_startD)
  moreover have "tui_reachable E H (\<lambda>_. True) fs w" using assms by (rule tui_reachable.start) simp
  ultimately show ?thesis using tui_reachable_invariant by blast
qed

lemma life_ok_step:
  assumes "tui_step E H (\<lambda>io. io = reliable_io) w w'" and "life_ok E H w"
  shows "life_ok E H w'"
  using assms(2) tui_step_ledger [OF assms(1)] tui_step_ui [OF assms(1)]
    ledger_steps_logged [of E H data_store "ledger w" "ledger w'"]
    ledger_steps_reachable [of E H "\<lambda>io. io = reliable_io" data_store "ledger w" "ledger w'"]
  by (auto simp: life_ok_def ledger_def)

lemma life_ok_restart:
  assumes "tui_start E H reliable_io tb1 tb2 tb3 now (w_fs w) = Inr (Inr w')" and "life_ok E H w"
    and "list_all (storable H) (blocks (app_chain (w_app w)))"
  shows "life_ok E H w' \<and> blocks (app_chain (w_app w')) = blocks (app_chain (w_app w))"
proof -
  from assms(2) have "crypto_init E" "logged E H data_store (ledger w)" "chain_ok E (blocks (app_chain (w_app w)))"
    by (auto simp: life_ok_def chain_reachable_ok)
  from restart_restores [OF this(1,2) assms(3) this(3), of tb1 tb2 tb3 now] assms(1)
  have "blocks (app_chain (w_app w')) = blocks (app_chain (w_app w))" "app_store (w_app w') = data_store"
    "logged E H data_store (ledger w')" by auto
  with tui_start_ok [OF assms(1)] show ?thesis by (simp add: life_ok_def)
qed

lemma life_step_ok: "life_step E H w w' \<Longrightarrow> life_ok E H w \<Longrightarrow> life_ok E H w'"
  by (erule life_step.cases) (auto dest: life_ok_step life_ok_restart)

lemma tui_life_ok:
  assumes "tui_life E H fs w" and "files fs ''./data/chain.log'' = None"
  shows "life_ok E H w"
  using assms(1)
proof (induction rule: tui_life.induct)
  case (begins tb1 tb2 tb3 now w)
  then have "tui_reachable E H (\<lambda>io. io = reliable_io) fs w" by (rule tui_reachable.start) simp
  from tui_reachable_logged [OF this assms(2)] tui_start_ok [OF begins] show ?case by (simp add: life_ok_def)
next
  case (goes_on w w')
  then show ?case by (blast intro: life_step_ok)
qed

section \<open>Starting on what a killed session left\<close>

lemma start_loads:
  assumes "crypto_init E" and "files fs ''./data/chain.log'' = Some content"
    and "load_all_blocks E H reliable_io data_store fs = Inr bs" and "chain_ok E bs"
  shows "\<exists>w'. tui_start E H reliable_io tb1 tb2 tb3 now fs = Inr (Inr w') \<and> blocks (app_chain (w_app w')) = bs"
proof -
  obtain fs' where st: "new_BlockStore reliable_io ''./data'' fs = (Inr data_store, fs')"
    using reliable_new_store_ok by blast
  with reliable_new_store [OF st] assms(2) have "files fs' ''./data/chain.log'' = Some content" by simp
  with assms(2,3) have "load_all_blocks E H reliable_io data_store fs' = Inr bs"
    using load_all_blocks_log [of fs' data_store content reliable_io E H]
      load_all_blocks_log [of fs data_store content reliable_io E H] by (simp add: reliable_io_def)
  moreover have "chain_pow E default_config bs" by (simp add: chain_pow_def pow_ok_def default_config_def)
  ultimately have "restore_from_store E H reliable_io data_store fs' (new_Chain default_config) =
      (Inr (), \<lparr>config = default_config, blocks = bs\<rparr>)"
    by (simp add: restore_from_store_def restore_loop_all [OF assms(4)])
  with assms(1) st show ?thesis by (simp add: tui_start_def new_App_def Let_def)
qed

lemma store_append_block_torn:
  assumes "store_append_block E H io store b fs = (out, fs')" and "files fs (log_path store) = Some c"
  shows "torn_log E H store b fs fs'"
proof (cases "ofstream_open io")
  case True
  let ?r = "record_bytes E H b"
  have "take (ofstream_flushed io (length ?r)) ?r = take (min (ofstream_flushed io (length ?r)) (length ?r)) ?r"
    by (simp add: min_def)
  with True assms show ?thesis
    by (auto simp: store_append_block_def append_file_def torn_log_def file_content_def Let_def split: if_splits
        intro: exI [of _ "min (ofstream_flushed io (length ?r)) (length ?r)"])
next
  case False
  with assms show ?thesis by (auto simp: store_append_block_def torn_log_def file_content_def)
qed

lemma killed_loads:
  assumes "killed E H w new fs'" and "life_ok E H w"
    and "list_all (storable H) (blocks (app_chain (w_app w)) @ new)"
  obtains bs content where "files fs' ''./data/chain.log'' = Some content"
    and "load_all_blocks E H reliable_io data_store fs' = Inr bs" and "chain_ok E bs"
    and "bs = blocks (app_chain (w_app w)) \<or> bs = blocks (app_chain (w_app w)) @ new"
  using assms(1)
proof cases
  let ?bs = "blocks (app_chain (w_app w))"
  from assms(2,3) have log: "log_holds E H data_store (w_fs w) ?bs" and good: "chain_ok E ?bs"
    by (auto simp: life_ok_def logged_def ledger_def chain_reachable_ok)
  {
    case between
    with log good file_log.get_holds [OF log] show thesis by (intro that [of _ ?bs]) (simp_all add: log_holds_def)
  next
    case (appending b r io out)
    with log have torn: "torn_log E H data_store b (w_fs w) fs'"
      by (intro store_append_block_torn) (simp_all add: log_holds_def)
    from appending have "content_ok E ?bs b" using validate_block_accepts by blast
    with good have "chain_ok E (?bs @ [b])" by (simp add: chain_ok_snoc)
    with good load_torn_log [OF log _ torn] assms(3) appending torn that show thesis
      by (auto simp: torn_log_def)
  }
qed

section \<open>The chain only grows\<close>

abbreviation app_blocks :: "World \<Rightarrow> Block list" where
  "app_blocks w \<equiv> blocks (app_chain (w_app w))"

definition grows :: "World \<Rightarrow> World \<Rightarrow> bool" where
  "grows w w' \<longleftrightarrow> prefix (app_blocks w) (app_blocks w') \<or> app_blocks w' = []"

lemma grows_same: "app_blocks w' = app_blocks w \<Longrightarrow> grows w w'"
  by (simp add: grows_def)

lemma app_append_grows:
  assumes "app_append E H io b w = (r, w')"
  shows "prefix (app_blocks w) (app_blocks w')"
  using assms
  by (cases rule: append_and_store_cases [of E "app_chain (w_app w)" b H io "app_store (w_app w)" "w_fs w"])
    (auto simp: app_append_def)

lemma poll_mining_grows:
  assumes "poll_mining E H t w = (r, w')"
  shows "grows w w'"
proof -
  obtain q w2 where a: "app_append E H (file_io t) (ms_mined_block (mining (w_app w))) (poll_ready w) = (q, w2)" by fastforce
  from app_append_grows [OF a] assms a show ?thesis
    by (auto simp: poll_mining_def grows_def set_difficulty_bits_def split: if_splits sum.splits)
qed

lemma do_genesis_grows: "do_genesis E H t w = (r, w') \<Longrightarrow> grows w w'"
  using app_append_grows [where w = "drain w" and io = "file_io t"]
  by (fastforce simp: do_genesis_def grows_def Let_def split: if_splits prod.splits sum.splits)

lemma do_append_signed_block_grows: "do_append_signed_block E H t w = (r, w') \<Longrightarrow> grows w w'"
  using app_append_grows [where w = w and io = "file_io t"]
  by (fastforce simp: do_append_signed_block_def grows_def Let_def split: if_splits prod.splits sum.splits option.splits)

lemma start_mining_grows: "start_mining E t w = (Inr (), w') \<Longrightarrow> grows w w'"
  using start_mining_ledger [of E t w w'] by (auto simp: ledger_def intro: grows_same)

lemma do_clear_store_grows: "do_clear_store E t w = (r, w') \<Longrightarrow> grows w w'"
  by (cases rule: do_clear_store_cases [of E t w]) (auto simp: grows_def new_Chain_def notify_def on_app_def)

lemma grows_drain [simp]: "grows w (drain w') = grows w w'"
  by (simp add: grows_def)

lemma handle_key_grows:
  assumes "handle_key E H t k w = (Inr (), w')"
  shows "grows w w'"
  using assms do_genesis_grows [of E H t w] do_append_signed_block_grows [of E H t w] start_mining_grows [of E t w]
    do_clear_store_grows [of E t w]
  by (auto simp: handle_key_def then_drain_Inr split: if_splits prod.splits) (auto simp: grows_def)

lemma key_event_grows:
  assumes "key_event E H now t w = Some (Inr (), w')"
  shows "grows w w'"
  by (rule key_eventE [OF assms]) (auto simp: grows_def dest: handle_key_grows)

lemma tui_step_grows: "tui_step E H io_ok w w' \<Longrightarrow> grows w w'"
  by (erule tui_stepE) (auto intro: poll_mining_grows key_event_grows grows_same dest!: draw_app)

lemma life_step_grows:
  assumes "life_step E H w w'" and "life_ok E H w"
  shows "grows w w'"
  using assms by (cases rule: life_step.cases) (auto intro: tui_step_grows grows_same dest: life_ok_restart)

text \<open>A step that does not clear the chain.\<close>

definition unclearing_step :: "openssl \<Rightarrow> host \<Rightarrow> World \<Rightarrow> World \<Rightarrow> bool" where
  "unclearing_step E H w w' \<longleftrightarrow> life_step E H w w' \<and> (app_blocks w' = [] \<longrightarrow> app_blocks w = [])"

lemma unclearing_steps_grow:
  "(unclearing_step E H)\<^sup>*\<^sup>* w w' \<Longrightarrow> life_ok E H w \<Longrightarrow> life_ok E H w' \<and> prefix (app_blocks w) (app_blocks w')"
proof (induction rule: rtranclp_induct)
  case (step w1 w2)
  then have "grows w1 w2" and "life_ok E H w2"
    by (auto simp: unclearing_step_def intro: life_step_grows life_step_ok)
  with step show ?case by (auto simp: unclearing_step_def grows_def)
qed simp

section \<open>A concrete life\<close>

lemma sample_born_life: "tui_life sample_openssl sample_host sample_fs sample_born"
proof -
  let ?io = "\<lambda>io. io = reliable_io"
  have "tui_step sample_openssl sample_host ?io sample_world sample_pressed"
    using tui_step.input [of sample_openssl sample_host ?io sample_world "[0x67]"] by (simp add: sample_pressed_def)
  with sample_born_step [of ?io] tui_life.begins [OF sample_tui_start] show ?thesis
    by (blast intro: tui_life.goes_on life_step.runs)
qed

lemma sample_born_blocks_storable: "list_all (storable sample_host) (app_blocks sample_born)"
  by (simp add: sample_key_event sample_born_storable)

text \<open>It is killed when three bytes of the next block's record have reached the file.\<close>

definition sample_second :: Block where
  "sample_second = build_block_from_transactions sample_openssl (app_chain (w_app sample_born)) [sample_signed] 1700000001"

lemma sample_killed: "killed sample_openssl sample_host sample_born [sample_second]
  (snd (store_append_block sample_openssl sample_host (torn_io False) data_store sample_second (w_fs sample_born)))"
proof -
  have "content_ok sample_openssl (app_blocks sample_born) sample_second" unfolding sample_second_def
    by (intro content_ok_built) (simp_all add: sample_key_event sample_signed_verifies sample_signed_sender
        make_genesis_block_def Let_def)
  then obtain r where "validate_block sample_openssl (app_chain (w_app sample_born)) sample_second = Inr r" "is_valid r"
    using validate_block_accepts [of sample_openssl "app_chain (w_app sample_born)" sample_second]
    by (auto simp: pow_ok_def sample_key_event default_config_def)
  then show ?thesis by (rule killed.appending) (rule prod.collapse [symmetric])
qed

lemma sample_second_storable: "list_all (storable sample_host) (app_blocks sample_born @ [sample_second])"
proof -
  have "app_blocks sample_born \<noteq> []" by (simp add: sample_key_event)
  then have "storable sample_host sample_second"
    by (simp add: sample_second_def build_block_from_transactions_def storable_def block_fits_def header_wf_def Let_def
        serialize_block_eq length_serialize_header length_lp_tx length_serialize_tx tx_fits_def sample_host_def
        sample_signed_def sample_tx_def)
  with sample_born_blocks_storable show ?thesis by simp
qed

lemma sample_restarted:
  obtains w' where "tui_start sample_openssl sample_host reliable_io [] [] [] 0 (w_fs sample_born) = Inr (Inr w')"
    and "unclearing_step sample_openssl sample_host sample_born w'"
proof -
  have lo: "life_ok sample_openssl sample_host sample_born"
    by (rule tui_life_ok [OF sample_born_life]) (simp add: sample_fs_def)
  then have "crypto_init sample_openssl" "logged sample_openssl sample_host data_store (ledger sample_born)"
    "chain_ok sample_openssl (app_blocks sample_born)" by (auto simp: life_ok_def chain_reachable_ok)
  from restart_restores [OF this(1,2) sample_born_blocks_storable this(3), of "[]" "[]" "[]" 0]
  obtain w' where s: "tui_start sample_openssl sample_host reliable_io [] [] [] 0 (w_fs sample_born) = Inr (Inr w')"
    and b: "app_blocks w' = app_blocks sample_born" by blast
  from life_step.restarts [OF s sample_born_blocks_storable] b
  have "unclearing_step sample_openssl sample_host sample_born w'" by (simp add: unclearing_step_def)
  with s show thesis by (rule that)
qed

section \<open>Properties\<close>

text \<open>C12: the program finds its chain again however often it is restarted. Let a life begin in a directory
  without a log, its file operations succeed, its blocks be storable, and its sessions end between two steps of
  the event loop. Then the blocks satisfy the chain invariant, and when the last session is killed, between two
  steps or at any byte of the record it is appending, a new start restores exactly its blocks, or its blocks
  and the one it was appending.\<close>

theorem life_restart_recovers:
  assumes "tui_life E H fs w" and "files fs ''./data/chain.log'' = None" and "killed E H w new fs'"
    and "list_all (storable H) (blocks (app_chain (w_app w)) @ new)"
  shows "chain_ok E (blocks (app_chain (w_app w))) \<and>
    (\<exists>w'. tui_start E H reliable_io tb1 tb2 tb3 now fs' = Inr (Inr w') \<and>
       (blocks (app_chain (w_app w')) = blocks (app_chain (w_app w)) \<or>
        blocks (app_chain (w_app w')) = blocks (app_chain (w_app w)) @ new))"
proof -
  have lo: "life_ok E H w" by (rule tui_life_ok [OF assms(1,2)])
  then have "crypto_init E" "chain_ok E (app_blocks w)" by (auto simp: life_ok_def chain_reachable_ok)
  moreover obtain bs content where "files fs' ''./data/chain.log'' = Some content"
    "load_all_blocks E H reliable_io data_store fs' = Inr bs" "chain_ok E bs"
    "bs = app_blocks w \<or> bs = app_blocks w @ new" by (rule killed_loads [OF assms(3) lo assms(4)])
  ultimately show ?thesis using start_loads [of E fs' content H bs tb1 tb2 tb3 now] by blast
qed

theorem life_restart_recovers_witness:
  "\<exists>w'. tui_start sample_openssl sample_host reliable_io [] [] [] 0
       (snd (store_append_block sample_openssl sample_host (torn_io False) data_store sample_second (w_fs sample_born))) = Inr (Inr w') \<and>
     (blocks (app_chain (w_app w')) = blocks (app_chain (w_app sample_born)) \<or>
      blocks (app_chain (w_app w')) = blocks (app_chain (w_app sample_born)) @ [sample_second])"
  using life_restart_recovers [OF sample_born_life _ sample_killed sample_second_storable, of "[]" "[]" "[]" 0]
  by (simp add: sample_fs_def)

text \<open>C13: history is append-only. In a life that began in a directory without a log, as long as all file
  operations succeed, the blocks are storable at every restart, no session is killed inside an append, and the
  chain is not cleared, the blocks a state has stay the first blocks of every later state, through keys, mined
  blocks, redraws and restarts alike.\<close>

theorem history_append_only:
  assumes "tui_life E H fs w" and "files fs ''./data/chain.log'' = None" and "(unclearing_step E H)\<^sup>*\<^sup>* w w'"
  shows "prefix (blocks (app_chain (w_app w))) (blocks (app_chain (w_app w')))"
  using unclearing_steps_grow [OF assms(3) tui_life_ok [OF assms(1,2)]] by simp

theorem history_append_only_witness:
  "\<exists>w'. tui_start sample_openssl sample_host reliable_io [] [] [] 0 (w_fs sample_born) = Inr (Inr w') \<and>
     prefix [make_genesis_block sample_openssl ''Astro: Born from bytes.'' 1700000000] (blocks (app_chain (w_app w')))"
proof -
  obtain w' where s: "tui_start sample_openssl sample_host reliable_io [] [] [] 0 (w_fs sample_born) = Inr (Inr w')"
    and u: "unclearing_step sample_openssl sample_host sample_born w'" by (rule sample_restarted)
  have "prefix (app_blocks sample_born) (app_blocks w')"
    by (rule history_append_only [OF sample_born_life _ r_into_rtranclp]) (simp add: sample_fs_def, rule u)
  with s show ?thesis by (simp add: sample_key_event)
qed

text \<open>Two runs of the whole program: when \<open>main\<close> ends normally and is started again, it goes on with
  exactly the blocks the first run had at its end.\<close>

theorem tui_main_resumes:
  assumes "tui_main E H F ss fs t = Some (Inr code, Some w, cs, t', os)"
    and "\<forall>n. frame_lawful E H (\<lambda>io. io = reliable_io) (ss_frames ss n)" and "ss_io ss = reliable_io"
    and "files fs ''./data/chain.log'' = None" and "list_all (storable H) (blocks (app_chain (w_app w)))"
  shows "\<exists>w'. tui_start E H reliable_io tb1 tb2 tb3 now (w_fs w) = Inr (Inr w') \<and>
    blocks (app_chain (w_app w')) = blocks (app_chain (w_app w))"
  using assms(1)
proof (rule tui_mainE)
  fix a1 a2 a3 w0 w1 s' os'
  assume start: "tui_start E H (ss_io ss) a1 a2 a3 (ss_debounce_now ss) fs = Inr (Inr w0)"
    and loop: "tui_loop E H F (ss_frames ss) 0 w0 (new_Screen ss) [] = Some (Inr (), w1, s', os')"
    and w: "tui_finish E (ss_end ss) w1 = (Inr (), w)"
  have "tui_reachable E H (\<lambda>io. io = reliable_io) fs w1"
    by (rule tui_steps_reachable [OF conjunct1 [OF tui_loop_steps [OF loop assms(2)]] tui_reachable.start [OF start]])
      (simp add: assms(3))
  then have "crypto_init E" "logged E H data_store (ledger w1)" "chain_ok E (app_blocks w1)"
    using tui_reachable_logged [OF _ assms(4)] tui_reachable_invariant chain_reachable_ok by blast+
  with restart_restores [of E H w1 tb1 tb2 tb3 now] assms(5) tui_finish_Inr [OF w] show ?thesis by fastforce
qed

theorem tui_main_resumes_witness:
  "\<exists>w os w'. tui_main sample_openssl sample_host sample_fp sample_tui_session sample_fs sample_tty =
      Some (Inr 0, Some w, Crypto_released, sample_tty, os) \<and>
    tui_start sample_openssl sample_host reliable_io [] [] [] 0 (w_fs w) = Inr (Inr w') \<and>
    blocks (app_chain (w_app w')) = blocks (app_chain (w_app w))"
proof -
  obtain w os where run: "tui_main sample_openssl sample_host sample_fp sample_tui_session sample_fs sample_tty =
      Some (Inr 0, Some w, Crypto_released, sample_tty, os)" and "app_blocks w = []" using sample_tui_main by blast
  with tui_main_resumes [OF run, of "[]" "[]" "[]" 0] have "\<exists>w'. tui_start sample_openssl sample_host reliable_io [] [] [] 0 (w_fs w) =
      Inr (Inr w') \<and> app_blocks w' = app_blocks w"
    by (simp add: sample_frame_lawful sample_tui_session_def, simp add: sample_fs_def)
  with run show ?thesis by blast
qed

end
