(* ===== verification/Astro_Resources.thy ===== *)
theory Astro_Resources
  imports Astro_Keys "HOL-Library.Multiset"
begin

text \<open>
  The objects of OpenSSL that src/core/hash.cpp and src/core/keys.cpp allocate and free: contexts freed by
  hand before every return in the former, objects owned by \<open>std::unique_ptr\<close> in the latter. The functions
  are given again with the allocations and releases they make, and shown to compute the same results.
\<close>

section \<open>Traces\<close>

datatype handle = MD_CTX | BIO_mem | PKEY | PKEY_CTX

datatype event = Alloc handle | Free handle

text \<open>The objects alive after a trace; \<open>None\<close> when something is freed that is not alive.\<close>

fun alive :: "event list \<Rightarrow> handle multiset \<Rightarrow> handle multiset option" where
  "alive [] live = Some live"
| "alive (Alloc h # tr) live = alive tr (add_mset h live)"
| "alive (Free h # tr) live = (if h \<in># live then alive tr (live - {#h#}) else None)"

definition balanced :: "event list \<Rightarrow> bool" where
  "balanced tr \<longleftrightarrow> (\<forall>live. alive tr live = Some live)"

text \<open>
  A call that throws or returns, with its trace; sequencing, and a scope that owns an object while its
  body runs and frees it when the scope is left, by an exception too. A null pointer is not freed.
\<close>

type_synonym 'a traced = "(exn + 'a) \<times> event list"

definition bindT :: "'a traced \<Rightarrow> ('a \<Rightarrow> 'b traced) \<Rightarrow> 'b traced" where
  "bindT m f = (case m of (Inl e, tr) \<Rightarrow> (Inl e, tr) | (Inr x, tr) \<Rightarrow> (fst (f x), tr @ snd (f x)))"

definition throwT :: "openssl \<Rightarrow> string \<Rightarrow> 'a traced" where
  "throwT E context = (Inl (throw_openssl_error E context), [])"

definition returnT :: "'a \<Rightarrow> 'a traced" where
  "returnT x = (Inr x, [])"

definition owning :: "handle \<Rightarrow> bool \<Rightarrow> 'a traced \<Rightarrow> 'a traced" where
  "owning h non_null body = (if non_null then (fst body, Alloc h # snd body @ [Free h]) else body)"

section \<open>Digests\<close>

definition sha256_traced :: "openssl \<Rightarrow> bytes \<Rightarrow> Hash256 \<times> event list" where
  "sha256_traced E data =
     (let out = zero_array 32 in
      if \<not> EVP_MD_CTX_new E then (out, [])
      else if \<not> EVP_DigestInit_ex E EVP_sha256 then (out, [Alloc MD_CTX, Free MD_CTX])
      else if \<not> EVP_DigestUpdate E EVP_sha256 data then (out, [Alloc MD_CTX, Free MD_CTX])
      else case EVP_DigestFinal_ex E EVP_sha256 data of
             None \<Rightarrow> (zero_array 32, [Alloc MD_CTX, Free MD_CTX])
           | Some md_out \<Rightarrow> (copy_into out md_out, [Alloc MD_CTX, Free MD_CTX]))"

definition hash160_traced :: "openssl \<Rightarrow> bytes \<Rightarrow> Hash160 \<times> event list" where
  "hash160_traced E data =
     (let (sha, tr) = sha256_traced E data; out = zero_array 20 in
      if \<not> EVP_MD_CTX_new E then (out, tr)
      else if \<not> EVP_DigestInit_ex E EVP_ripemd160 then (out, tr @ [Alloc MD_CTX, Free MD_CTX])
      else if \<not> EVP_DigestUpdate E EVP_ripemd160 sha then (out, tr @ [Alloc MD_CTX, Free MD_CTX])
      else case EVP_DigestFinal_ex E EVP_ripemd160 sha of
             None \<Rightarrow> (zero_array 20, tr @ [Alloc MD_CTX, Free MD_CTX])
           | Some md_out \<Rightarrow> (copy_into out md_out, tr @ [Alloc MD_CTX, Free MD_CTX]))"

section \<open>Keys\<close>

definition export_key_pem_traced :: "openssl \<Rightarrow> pkey \<Rightarrow> bool \<Rightarrow> bytes traced" where
  "export_key_pem_traced E key is_private =
     (if \<not> BIO_new E then throwT E ''BIO_new''
      else owning BIO_mem True (bindT
        (if is_private
         then (case PEM_write_bio_PrivateKey E key of
                 None \<Rightarrow> throwT E ''PEM_write_bio_PrivateKey'' | Some data \<Rightarrow> returnT data)
         else (case PEM_write_bio_PUBKEY E key of
                 None \<Rightarrow> throwT E ''PEM_write_bio_PUBKEY'' | Some data \<Rightarrow> returnT data))
        (\<lambda>data. if length data = 0 then throwT E ''BIO_get_mem_data'' else returnT data)))"

text \<open>
  \<open>key_handle\<close> is declared before \<open>keygen_ctx\<close> and takes over the key after it was generated, so the context
  is freed first.
\<close>

definition generate_ec_keypair_traced :: "openssl \<Rightarrow> string \<Rightarrow> KeyPair traced" where
  "generate_ec_keypair_traced E curve_name =
     (if \<not> EVP_PKEY_CTX_new_from_name E then throwT E ''EVP_PKEY_CTX_new_from_name''
      else
        let (r, tr, key_handle) =
          (if \<not> EVP_PKEY_keygen_init E then (Inl (throw_openssl_error E ''EVP_PKEY_keygen_init''), [], [])
           else if \<not> EVP_PKEY_CTX_set_params E curve_name
           then (Inl (throw_openssl_error E ''EVP_PKEY_CTX_set_params''), [], [])
           else case EVP_PKEY_keygen E curve_name of
                  None \<Rightarrow> (Inl (throw_openssl_error E ''EVP_PKEY_keygen''), [], [])
                | Some key \<Rightarrow>
                    let (r, tr) = bindT (export_key_pem_traced E key True) (\<lambda>priv_pem.
                                  bindT (export_key_pem_traced E key False) (\<lambda>pub_pem.
                                  returnT \<lparr>privkey_pem = priv_pem, pubkey_pem = pub_pem\<rparr>))
                    in (r, Alloc PKEY # tr, [Free PKEY]))
        in (r, Alloc PKEY_CTX # tr @ Free PKEY_CTX # key_handle))"

definition sign_message_traced :: "openssl \<Rightarrow> bytes \<Rightarrow> bytes \<Rightarrow> bytes traced" where
  "sign_message_traced E priv_bytes message =
     (let bio = BIO_new_mem_buf E priv_bytes (word_of_nat (length priv_bytes));
          key = PEM_read_bio_PrivateKey E bio
      in owning BIO_mem (bio \<noteq> None) (owning PKEY (key \<noteq> None)
        (if \<not> EVP_MD_CTX_new E then throwT E ''EVP_MD_CTX_new''
         else owning MD_CTX True
           (if \<not> EVP_DigestSignInit E key then throwT E ''EVP_DigestSignInit''
            else if \<not> EVP_DigestSignUpdate E key message then throwT E ''EVP_DigestSignUpdate''
            else case EVP_DigestSignLength E key message of
                   None \<Rightarrow> throwT E ''EVP_DigestSignalFinal (get length)''
                 | Some sig_len \<Rightarrow>
                     (case EVP_DigestSignFinal E key message of
                        None \<Rightarrow> throwT E ''EVP_DigestSignalFinal (get signature)''
                      | Some sig \<Rightarrow> returnT (take (length sig) (copy_into (zero_array sig_len) sig)))))))"

definition verify_message_traced :: "openssl \<Rightarrow> bytes \<Rightarrow> bytes \<Rightarrow> bytes \<Rightarrow> bool traced" where
  "verify_message_traced E pub_bytes message signature =
     (case BIO_new_mem_buf E pub_bytes (word_of_nat (length pub_bytes)) of
        None \<Rightarrow> throwT E ''BIO_new_mem_buf''
      | Some bio \<Rightarrow> owning BIO_mem True
          (case PEM_read_bio_PUBKEY E bio of
             None \<Rightarrow> throwT E ''PEM_read_bio_PUBKEY''
           | Some key \<Rightarrow> owning PKEY True
               (if \<not> EVP_MD_CTX_new E then throwT E ''EVP_MD_CTX_new''
                else owning MD_CTX True
                  (if \<not> EVP_DigestVerifyInit E key then throwT E ''EVP_DigestVerifyInit''
                   else if \<not> EVP_DigestVerifyUpdate E key message then throwT E ''EVP_DigestVerifyUpdate''
                   else returnT (EVP_DigestVerifyFinal E key message signature = 1)))))"

section \<open>Scopes are balanced\<close>

lemma alive_append: "alive (tr @ tr') live = Option.bind (alive tr live) (alive tr')"
  by (induction tr live rule: alive.induct) auto

named_theorems balanced_intros

lemma balanced_Nil [balanced_intros]: "balanced []"
  by (simp add: balanced_def)

lemma balanced_append [balanced_intros]: "balanced tr \<Longrightarrow> balanced tr' \<Longrightarrow> balanced (tr @ tr')"
  by (simp add: balanced_def alive_append)

lemma balanced_scope [balanced_intros]: "balanced tr \<Longrightarrow> balanced (Alloc h # tr @ [Free h])"
  by (simp add: balanced_def alive_append)

lemma balanced_pair [balanced_intros]: "balanced [Alloc h, Free h]"
  by (simp add: balanced_def)

lemma balanced_bindT [balanced_intros]:
  "balanced (snd m) \<Longrightarrow> (\<And>x. balanced (snd (f x))) \<Longrightarrow> balanced (snd (bindT m f))"
  by (auto simp: bindT_def intro: balanced_append split: prod.split sum.split)

lemma balanced_owning [balanced_intros]: "balanced (snd body) \<Longrightarrow> balanced (snd (owning h b body))"
  by (simp add: owning_def balanced_scope)

lemma balanced_throwT [balanced_intros]: "balanced (snd (throwT E c))"
  by (simp add: throwT_def balanced_Nil)

lemma balanced_returnT [balanced_intros]: "balanced (snd (returnT x))"
  by (simp add: returnT_def balanced_Nil)

lemma fst_traced [simp]:
  "fst (bindT m f) = bindE (fst m) (\<lambda>x. fst (f x))" "fst (throwT E c) = Inl (throw_openssl_error E c)"
  "fst (returnT x) = Inr x" "fst (owning h b body) = fst body"
  by (simp_all add: bindT_def throwT_def returnT_def owning_def split: prod.split sum.split)

text \<open>The scope of \<open>generate_ec_keypair\<close> does not nest: the context goes before the key.\<close>

lemma balanced_handover:
  "balanced tr \<Longrightarrow> balanced (Alloc h # (Alloc k # tr) @ Free h # [Free k])"
  by (auto simp: balanced_def alive_append)

section \<open>The traced functions compute what the functions compute\<close>

lemma sha256_traced_eq: "fst (sha256_traced E data) = sha256 E data"
  by (simp add: sha256_traced_def sha256_def Let_def split: option.split)

lemma hash160_traced_eq: "fst (hash160_traced E data) = hash160 E data"
  by (simp add: hash160_traced_def hash160_def Let_def split_beta sha256_traced_eq split: option.split)

lemma export_key_pem_traced_eq: "fst (export_key_pem_traced E key b) = export_key_pem E key b"
  by (simp add: export_key_pem_traced_def export_key_pem_def if_distrib [of fst] split: option.split)

lemma generate_ec_keypair_traced_eq: "fst (generate_ec_keypair_traced E curve) = generate_ec_keypair E curve"
  by (simp add: generate_ec_keypair_traced_def generate_ec_keypair_def split_beta export_key_pem_traced_eq
      split: option.split)

lemma sign_message_traced_eq: "fst (sign_message_traced E pem msg) = sign_message E pem msg"
  by (simp add: sign_message_traced_def sign_message_def Let_def split: option.split)

lemma verify_message_traced_eq: "fst (verify_message_traced E pem msg sig) = verify_message E pem msg sig"
  by (simp add: verify_message_traced_def verify_message_def split: option.split)

lemmas traced_eqs = sha256_traced_eq hash160_traced_eq generate_ec_keypair_traced_eq
  sign_message_traced_eq verify_message_traced_eq

section \<open>And free what they allocate\<close>

lemma sha256_traced_balanced [balanced_intros]: "balanced (snd (sha256_traced E data))"
  by (simp add: sha256_traced_def Let_def balanced_intros split: option.split)

lemma hash160_traced_balanced [balanced_intros]: "balanced (snd (hash160_traced E data))"
  by (simp add: hash160_traced_def Let_def split_beta balanced_intros split: option.split)

lemma export_key_pem_traced_balanced [balanced_intros]: "balanced (snd (export_key_pem_traced E key b))"
  by (auto simp: export_key_pem_traced_def intro!: balanced_intros split: option.split)

lemma generate_ec_keypair_traced_balanced [balanced_intros]:
  "balanced (snd (generate_ec_keypair_traced E curve))"
proof (cases "EVP_PKEY_keygen E curve")
  case None
  then show ?thesis by (simp add: generate_ec_keypair_traced_def balanced_intros)
next
  case (Some key)
  define exports where
    "exports = bindT (export_key_pem_traced E key True) (\<lambda>priv_pem.
       bindT (export_key_pem_traced E key False) (\<lambda>pub_pem.
       returnT \<lparr>privkey_pem = priv_pem, pubkey_pem = pub_pem\<rparr>))"
  have "balanced (snd exports)" unfolding exports_def by (intro balanced_intros)
  then show ?thesis
    using Some balanced_handover [of "snd exports" PKEY_CTX PKEY]
    by (simp add: generate_ec_keypair_traced_def split_beta balanced_intros flip: exports_def)
qed

lemma sign_message_traced_balanced [balanced_intros]: "balanced (snd (sign_message_traced E pem msg))"
  by (auto simp: sign_message_traced_def Let_def intro!: balanced_intros split: option.split)

lemma verify_message_traced_balanced [balanced_intros]:
  "balanced (snd (verify_message_traced E pem msg sig))"
  by (auto simp: verify_message_traced_def intro!: balanced_intros split: option.split)

text \<open>C30: Whatever OpenSSL answers, the hash functions, key generation, signing and verification compute what
  their models of the other theories say and, on every path (early returns and exceptions included), free
  each OpenSSL object they allocated exactly once and no other: the objects alive afterwards are those alive
  before.\<close>

theorem openssl_objects_released:
  "fst (sha256_traced E data) = sha256 E data \<and> balanced (snd (sha256_traced E data))
   \<and> fst (hash160_traced E data) = hash160 E data \<and> balanced (snd (hash160_traced E data))
   \<and> fst (generate_ec_keypair_traced E curve) = generate_ec_keypair E curve
   \<and> balanced (snd (generate_ec_keypair_traced E curve))
   \<and> fst (sign_message_traced E pem msg) = sign_message E pem msg \<and> balanced (snd (sign_message_traced E pem msg))
   \<and> fst (verify_message_traced E pem msg sig) = verify_message E pem msg sig
   \<and> balanced (snd (verify_message_traced E pem msg sig))"
  by (intro conjI traced_eqs balanced_intros)

end
