(* ===== verification/Astro_Cli.thy ===== *)
theory Astro_Cli
  imports Astro_Chain_Store Astro_Miner Astro_Terminal
begin

text \<open>
  The command line programs: src/main.cpp (astro-node with its demo commands), src/cli/mine.cpp and
  src/cli/store.cpp. A program is a function from its arguments, the clock and the file system to its
  exit code, or the exception that ends it, and what it writes to standard output, a string for each
  statement that writes, without a line break at its end.
\<close>

type_synonym run = "(crash + int) \<times> string list"

section \<open>Arguments\<close>

text \<open>
  \<open>std::stoull\<close> in base 10: leading white space, an optional sign, digits; the rest is ignored. A
  minus sign negates modulo \<open>2 ^ 64\<close>.
\<close>

definition is_space :: "char \<Rightarrow> bool" where
  "is_space c \<longleftrightarrow> (of_char c :: nat) \<in> {9, 10, 11, 12, 13, 32}"

definition is_digit :: "char \<Rightarrow> bool" where
  "is_digit c \<longleftrightarrow> 48 \<le> (of_char c :: nat) \<and> (of_char c :: nat) \<le> 57"

definition digits_value :: "string \<Rightarrow> nat" where
  "digits_value ds = foldl (\<lambda>n c. 10 * n + (of_char c - 48)) 0 ds"

definition scan_number :: "string \<Rightarrow> (bool \<times> string)" where
  "scan_number s =
     (let s = dropWhile is_space s
      in case s of
           [] \<Rightarrow> (False, [])
         | c # cs \<Rightarrow> if c = CHR ''-'' then (True, takeWhile is_digit cs)
                     else if c = CHR ''+'' then (False, takeWhile is_digit cs)
                     else (False, takeWhile is_digit s))"

definition stoull :: "string \<Rightarrow> exn + u64" where
  "stoull s =
     (let (neg, ds) = scan_number s
      in if ds = [] then Inl (InvalidArgument ''stoull'')
         else if 2 ^ 64 \<le> digits_value ds then Inl (OutOfRange ''stoull'')
         else Inr (if neg then - word_of_nat (digits_value ds) else word_of_nat (digits_value ds)))"

text \<open>\<open>atoi\<close>; a value outside \<open>int\<close> is undefined in C and taken modulo \<open>2 ^ 32\<close> here, as is the conversion to \<open>uint32_t\<close>.\<close>

definition atoi_u32 :: "string \<Rightarrow> u32" where
  "atoi_u32 s = (let (neg, ds) = scan_number s in if neg then - word_of_nat (digits_value ds) else word_of_nat (digits_value ds))"

definition starts_with :: "string \<Rightarrow> string \<Rightarrow> bool" where
  "starts_with p s \<longleftrightarrow> take (length p) s = p"

text \<open>What the option loop of a command ends with.\<close>

datatype 'o options = Options 'o | Help | UnknownOption string

fun keys_options :: "string \<Rightarrow> string \<Rightarrow> string list \<Rightarrow> (string \<times> string) options" where
  "keys_options curve message [] = Options (curve, message)"
| "keys_options curve message (arg # args) =
     (if starts_with ''--curve='' arg then keys_options (drop 8 arg) message args
      else if arg = ''--curve'' \<and> args \<noteq> [] then keys_options (hd args) message (tl args)
      else if starts_with ''--message='' arg then keys_options curve (drop 10 arg) args
      else if arg = ''--message'' \<and> args \<noteq> [] then keys_options curve (hd args) (tl args)
      else if arg = ''-h'' \<or> arg = ''--help'' then Help
      else UnknownOption arg)"

fun tx_options :: "u64 \<Rightarrow> u64 \<Rightarrow> string \<Rightarrow> string list \<Rightarrow> exn + (u64 \<times> u64 \<times> string) options" where
  "tx_options amount nonce recipient [] = Inr (Options (amount, nonce, recipient))"
| "tx_options amount nonce recipient (arg # args) =
     (if starts_with ''--amount='' arg
      then bindE (stoull (drop 9 arg)) (\<lambda>amount. tx_options amount nonce recipient args)
      else if arg = ''--amount'' \<and> args \<noteq> []
      then bindE (stoull (hd args)) (\<lambda>amount. tx_options amount nonce recipient (tl args))
      else if starts_with ''--nonce='' arg
      then bindE (stoull (drop 8 arg)) (\<lambda>nonce. tx_options amount nonce recipient args)
      else if arg = ''--nonce'' \<and> args \<noteq> []
      then bindE (stoull (hd args)) (\<lambda>nonce. tx_options amount nonce recipient (tl args))
      else if starts_with ''--to='' arg then tx_options amount nonce (drop 5 arg) args
      else if arg = ''--to'' \<and> args \<noteq> [] then tx_options amount nonce (hd args) (tl args)
      else if arg = ''-h'' \<or> arg = ''--help'' then Inr Help
      else Inr (UnknownOption arg))"

fun merkle_options :: "string \<Rightarrow> u64 \<Rightarrow> string list \<Rightarrow> exn + (string \<times> u64) options" where
  "merkle_options csv index [] = Inr (Options (csv, index))"
| "merkle_options csv index (arg # args) =
     (if starts_with ''--leaves='' arg then merkle_options (drop 9 arg) index args
      else if arg = ''--leaves'' \<and> args \<noteq> [] then merkle_options (hd args) index (tl args)
      else if starts_with ''--index='' arg
      then bindE (stoull (drop 8 arg)) (\<lambda>index. merkle_options csv index args)
      else if arg = ''--index'' \<and> args \<noteq> []
      then bindE (stoull (hd args)) (\<lambda>index. merkle_options csv index (tl args))
      else if arg = ''-h'' \<or> arg = ''--help'' then Inr Help
      else Inr (UnknownOption arg))"

section \<open>The demo commands\<close>

definition usage :: "string list" where
  "usage =
     [''Astro Node CLI'', [], ''Usage:'',
      ''  astro-node demo-keys [--curve CURVE] [--message MESSAGE]'',
      ''  astro-node demo-tx   [--amount N] [--nonce N] [--to LABEL]'',
      ''  astro-node demo-genesis'',
      ''  astro-node demo-merkle [--leaves CSV] [--index N]'',
      ''  astro-node demo-chain'', [], ''Options:'',
      ''  --curve    EC curve name (default: secp256k1)'',
      ''  --message  Message to sign (default: '' @ [char_of (39 :: nat)] @ ''astro demo'' @ [char_of (39 :: nat)] @ '')'',
      ''  --amount   Transaction amount (default: 123)'',
      ''  --nonce    Transaction nonce (default: 1)'',
      ''  --to       Recipient label (default: '' @ [char_of (39 :: nat)] @ ''demo-recipient'' @ [char_of (39 :: nat)] @ '')'',
      ''  --leaves   CSV of leaf strings (default: a,b,c,d,e)'',
      ''  --index    Leaf index for proof (default: 0)'']"

text \<open>
  \<open>catch (const std::exception&)\<close> prints to standard error and exits with 1; what was printed before
  stays. The parsing of options is outside the \<open>try\<close> blocks.
\<close>

definition demo_keys :: "openssl \<Rightarrow> string list \<Rightarrow> run" where
  "demo_keys E args =
     (case keys_options ''secp256k1'' ''astro demo'' args of
        Help \<Rightarrow> (Inr 0, usage)
      | UnknownOption _ \<Rightarrow> (Inr 1, usage)
      | Options (curve, message) \<Rightarrow>
          if \<not> crypto_init E then (Inr 1, [])
          else case generate_ec_keypair E curve of
              Inl _ \<Rightarrow> (Inr 1, [])
            | Inr key_pair \<Rightarrow>
                let out = [''Curve: '' @ curve, ''Message: '' @ message, [],
                           ''Private Key (PEM):'', bytes_string (privkey_pem key_pair),
                           ''Public Key (PEM):'', bytes_string (pubkey_pem key_pair)]
                in case sign_message_string E (privkey_pem key_pair) message of
                     Inl _ \<Rightarrow> (Inr 1, out)
                   | Inr signature \<Rightarrow>
                       let out = out @ [''Signature (DER hex):'', toHex signature]
                       in case verify_message_string E (pubkey_pem key_pair) message signature of
                            Inl _ \<Rightarrow> (Inr 1, out)
                          | Inr verified \<Rightarrow>
                              (Inr 0, out @ [''Verification: '' @ (if verified then ''OK'' else ''FAIL'')]))"

definition demo_tx :: "openssl \<Rightarrow> string list \<Rightarrow> run" where
  "demo_tx E args =
     (case tx_options 123 1 ''demo-recipient'' args of
        Inl e \<Rightarrow> (Inl (Uncaught e), [])
      | Inr Help \<Rightarrow> (Inr 0, usage)
      | Inr (UnknownOption _) \<Rightarrow> (Inr 1, usage)
      | Inr (Options (amount, nonce, recipient)) \<Rightarrow>
          if \<not> crypto_init E then (Inr 1, [])
          else case generate_ec_keypair E default_curve of
              Inl _ \<Rightarrow> (Inr 1, [])
            | Inr key_pair \<Rightarrow>
                let tx = new_Transaction\<lparr>tx_version := 1, tx_nonce := nonce, tx_amount := amount,
                           from_pub_pem := pubkey_pem key_pair, to_label := recipient\<rparr>;
                    hash = tx_hash E tx
                in case sign E (privkey_pem key_pair) tx of
                     Inl _ \<Rightarrow> (Inr 1, [])
                   | Inr tx \<Rightarrow>
                       let out = [''tx.hash: '' @ toHex hash,
                                  ''signature.size: '' @ decimal (length (tx_signature tx)) @ '' bytes'']
                       in case verify E tx of
                            Inl _ \<Rightarrow> (Inr 1, out @ [''verify: ''])
                          | Inr ok \<Rightarrow>
                              (Inr 0, out @ [''verify: '' @ (if ok then ''OK'' else ''FAIL''),
                                ''serialized.len: '' @ decimal (length (serialize_tx False tx))]))"

definition demo_genesis :: "openssl \<Rightarrow> u64 \<Rightarrow> run" where
  "demo_genesis E now =
     (let genesis_block = make_genesis_block E ''Astro: Born from bytes.'' now;
          header_hash = hash_header E (header genesis_block)
      in (Inr 0, [''genesis.time: '' @ decimal (unat (hdr_timestamp (header genesis_block))),
                  ''genesis.hash: '' @ toHex header_hash,
                  ''txs: '' @ decimal (length (transactions genesis_block))]))"

fun split_csv :: "string \<Rightarrow> string list \<Rightarrow> string \<Rightarrow> string list" where
  "split_csv cur parts [] = parts @ [cur]"
| "split_csv cur parts (c # csv) =
     (if c = CHR '','' then split_csv [] (parts @ [cur]) csv else split_csv (cur @ [c]) parts csv)"

text \<open>The leaf that stands for a tampered one: as long as the part, its first character changed.\<close>

definition tampered :: "string \<Rightarrow> string" where
  "tampered part = replicate (length part) (if hd part = CHR ''A'' then CHR ''B'' else CHR ''A'')"

text \<open>A failed assertion of \<open>build_proof\<close> would abort; the index is clamped before.\<close>

definition demo_merkle :: "openssl \<Rightarrow> string list \<Rightarrow> run" where
  "demo_merkle E args =
     (case merkle_options ''a,b,c,d,e'' 0 args of
        Inl e \<Rightarrow> (Inl (Uncaught e), [])
      | Inr Help \<Rightarrow> (Inr 0, usage)
      | Inr (UnknownOption _) \<Rightarrow> (Inr 1, usage)
      | Inr (Options (csv, index)) \<Rightarrow>
          let parts = split_csv [] [] csv
          in if parts = [] then (Inr 1, [])
             else
               let leaves = map (sha256_string E) parts;
                   index = (if length leaves \<le> unat index then length leaves - 1 else unat index);
                   R = root E leaves;
                   out = [''leaves: '' @ decimal (length leaves), ''root:   '' @ toHex R]
               in case build_proof E leaves index of
                    None \<Rightarrow> (Inl Terminated, out)
                  | Some proof_ \<Rightarrow>
                      let ok = verify_proof E (leaves ! index) proof_ R;
                          out = out @ [''proof.steps: '' @ decimal (length (steps proof_)),
                                       ''verify['' @ decimal index @ '']: '' @ (if ok then ''OK'' else ''FAIL'')]
                      in if parts ! index \<noteq> []
                         then let bad = verify_proof E (sha256_string E (tampered (parts ! index))) proof_ R
                              in (Inr 0, out @ [''verify tampered: '' @
                                   (if bad then ''UNEXPECTED_OK'' else ''EXPECTED_FAIL'')])
                         else (Inr 0, out))"

definition demo_chain :: "openssl \<Rightarrow> u64 \<Rightarrow> run" where
  "demo_chain E t0 =
     (if \<not> crypto_init E then (Inr 1, [])
      else
        let c = new_Chain default_config;
            genesis = make_genesis_block E ''Astro begins'' t0
        in case append_block E genesis c of
             (Inl e, _) \<Rightarrow> (Inl (Uncaught e), [])
           | (Inr res0, c) \<Rightarrow>
               let out = [''append genesis: '' @ (if is_valid res0 then ''OK'' else ''FAIL'')]
               in case demo_transaction E 1 42 ''darth vader'' of
                    Inl e \<Rightarrow> (Inl (Uncaught e), out)
                  | Inr tx \<Rightarrow>
                      let block1 = build_block_from_transactions E c [tx] (t0 + 1)
                      in case append_block E block1 c of
                           (Inl e, _) \<Rightarrow> (Inl (Uncaught e), out)
                         | (Inr res1, c) \<Rightarrow>
                             let out = out @ [''append block #2: '' @ (if is_valid res1 then ''OK'' else ''FAIL'')];
                                 out = out @ (case tip_hash E c of None \<Rightarrow> []
                                   | Some th \<Rightarrow> [''tip: '' @ toHex th, ''height: '' @ decimal (height c)])
                             in (Inr (if is_valid res1 then 0 else 2), out))"

text \<open>\<open>argv\<close> without the program name.\<close>

definition node_main :: "openssl \<Rightarrow> u64 \<Rightarrow> string list \<Rightarrow> run" where
  "node_main E now argv =
     (case argv of
        [] \<Rightarrow> (Inr 0, usage)
      | command # args \<Rightarrow>
          if command = ''demo-keys'' then demo_keys E args
          else if command = ''demo-tx'' then demo_tx E args
          else if command = ''demo-genesis'' then demo_genesis E now
          else if command = ''demo-merkle'' then demo_merkle E args
          else if command = ''demo-chain'' then demo_chain E now
          else (Inr 0, usage))"

section \<open>The mining program\<close>

text \<open>
  \<open>t0\<close> is the reading of \<open>time\<close> for the genesis block, \<open>begun\<close>, \<open>now k\<close> and \<open>ended\<close> are those of the steady
  clock before the search, at the \<open>k\<close>-th report and after it; \<open>None\<close> when the search never ends.
\<close>

definition mine_progress_line :: "fp \<Rightarrow> int \<Rightarrow> (nat \<Rightarrow> int) \<Rightarrow> nat \<times> u64 \<times> u32 \<times> string \<Rightarrow> string" where
  "mine_progress_line F begun now = (\<lambda>(k, attempts, leading_zeros, hash_hex).
     let delta = fp_seconds F (now k - begun);
         rate = fp_div F (fp_of_u64 F attempts) (fp_max F delta (fp_lit F ''1e-9''))
     in char_of (13 :: nat) # bytes_string [0x5B, 0xE2, 0x9A, 0x99, 0x5D] @ '' attempts='' @ decimal (unat attempts) @
        '' lz='' @ decimal (unat leading_zeros) @ '' rate='' @ show_int (fp_trunc F (fp_div F rate (fp_lit F ''1000.0''))) @
        '' KH/s'' @ '' hash='' @ take 10 hash_hex @ ''...'')"

definition mine_progress_lines :: "fp \<Rightarrow> int \<Rightarrow> (nat \<Rightarrow> int) \<Rightarrow> progress \<Rightarrow> string list" where
  "mine_progress_lines F begun now pr = map (mine_progress_line F begun now) (enumerate 0 pr)"

definition mine_found_line :: "fp \<Rightarrow> int \<Rightarrow> int \<Rightarrow> progress \<Rightarrow> string" where
  "mine_found_line F begun ended pr =
     (let last_attempts = (if pr = [] then 0 else fst (last pr))
      in char_of (10 :: nat) # bytes_string [0x5B, 0xE2, 0x9C, 0x85, 0x5D] @ '' found in '' @
         fp_show F (fp_seconds F (ended - begun)) @ ''s, attempts='' @ decimal (unat last_attempts))"

definition mine_main :: "openssl \<Rightarrow> fp \<Rightarrow> u64 \<Rightarrow> (nat \<Rightarrow> u64) \<Rightarrow> int \<Rightarrow> (nat \<Rightarrow> int) \<Rightarrow> int \<Rightarrow> string list \<Rightarrow> run option" where
  "mine_main E F t0 clk begun now ended argv =
     (if \<not> crypto_init E then Some (Inr 1, [])
      else
        let bits = (case argv of [] \<Rightarrow> 18 | arg # _ \<Rightarrow> atoi_u32 arg);
            c = new_Chain (default_config\<lparr>difficulty_bits := 0\<rparr>);
            genesis = make_genesis_block E ''Astro Born'' t0
        in case append_block E genesis c of
             (Inl e, _) \<Rightarrow> Some (Inl (Uncaught e), [])
           | (Inr validation_result, c) \<Rightarrow>
               if \<not> is_valid validation_result then Some (Inr 2, [])
               else case demo_transaction E 1 42 ''darth vader'' of
                   Inl e \<Rightarrow> Some (Inl (Uncaught e), [])
                 | Inr transaction \<Rightarrow>
                     (case mine_block E clk (\<lambda>_. False) c [transaction] bits True 25000 of
                        None \<Rightarrow> None
                      | Some (Threw e, pr) \<Rightarrow> Some (Inl (Uncaught e), mine_progress_lines F begun now pr)
                      | Some (DivideByZero, pr) \<Rightarrow> Some (Inl Terminated, mine_progress_lines F begun now pr)
                      | Some (Found block, pr) \<Rightarrow>
                          let out = mine_progress_lines F begun now pr @ [mine_found_line F begun ended pr]
                          in case append_block E block (set_difficulty_bits bits c) of
                               (Inl e, _) \<Rightarrow> Some (Inl (Uncaught e), out)
                             | (Inr result, c) \<Rightarrow>
                                 if \<not> is_valid result then Some (Inr 3, out)
                                 else Some (Inr 0, out @ [''height: '' @ decimal (height c) @ '' hash: '' @
                                        take 16 (toHex (hash_header E (header block))) @ ''...''])))"

section \<open>The persistence program\<close>

definition store_main :: "openssl \<Rightarrow> host \<Rightarrow> io \<Rightarrow> fs \<Rightarrow> run \<times> fs" where
  "store_main E H io fs =
     (if \<not> crypto_init E then ((Inr 1, []), fs)
      else case new_BlockStore io ''./data'' fs of
          (Inl e, fs) \<Rightarrow> ((Inl (Uncaught e), []), fs)
        | (Inr store, fs) \<Rightarrow>
            (case restore_from_store E H io store fs (new_Chain (default_config\<lparr>difficulty_bits := 0\<rparr>)) of
               (Inl e, _) \<Rightarrow> ((Inl (Uncaught e), []), fs)
             | (Inr _, c) \<Rightarrow>
                 let out = [bytes_string [0x5B, 0xF0, 0x9F, 0x92, 0xBE, 0x5D] @ '' restored height: '' @ decimal (height c)];
                     finish = (\<lambda>out c fs. ((Inr 0, out @ (case tip_hash E c of None \<Rightarrow> []
                       | Some h \<Rightarrow> [''tip: '' @ take 16 (toHex h) @ ''...''])), fs))
                 in if height c = 0 then
                      (case append_and_store E H io store (make_genesis_block E ''Astro: Persisted.'' 1700000000) (c, fs) of
                         (Inl e, _, fs) \<Rightarrow> ((Inl (Uncaught e), out), fs)
                       | (Inr r, c, fs) \<Rightarrow>
                           finish (out @ [if is_valid r then ''[+] wrote genesis'' else ''[x] failed genesis'']) c fs)
                    else
                      (case demo_transaction E (word_of_nat (height c)) 1 ''demo'' of
                         Inl e \<Rightarrow> ((Inl (Uncaught e), out), fs)
                       | Inr transaction \<Rightarrow>
                           let new_block = build_block_from_transactions E c [transaction]
                                             (1700000000 + word_of_nat (height c))
                           in (case append_and_store E H io store new_block (c, fs) of
                                 (Inl e, _, fs) \<Rightarrow> ((Inl (Uncaught e), out), fs)
                               | (Inr r, c, fs) \<Rightarrow>
                                   finish (out @ [if is_valid r then ''[+] appended block'' else ''[x] append failed'']) c fs))))"

section \<open>Splitting at commas\<close>

lemma split_csv_parts: "split_csv cur parts csv = parts @ split_csv cur [] csv"
proof (induction csv arbitrary: cur parts)
  case (Cons c csv)
  show ?case
    using Cons [of "[]" "parts @ [cur]"] Cons [of "[]" "[cur]"] Cons [of "cur @ [c]" parts] by simp
qed simp

lemma split_csv_not_Nil: "split_csv cur parts csv \<noteq> []"
  by (induction cur parts csv rule: split_csv.induct) simp_all

fun join_csv :: "string list \<Rightarrow> string" where
  "join_csv [] = []"
| "join_csv [p] = p"
| "join_csv (p # q # ps) = p @ '','' @ join_csv (q # ps)"

lemma join_csv_Cons: "ps \<noteq> [] \<Longrightarrow> join_csv (p # ps) = p @ '','' @ join_csv ps"
  by (cases ps) simp_all

lemma split_csv_join: "join_csv (split_csv cur [] csv) = cur @ csv"
proof (induction csv arbitrary: cur)
  case (Cons c csv)
  show ?case
  proof (cases "c = CHR '',''")
    case True
    then have "split_csv cur [] (c # csv) = cur # split_csv [] [] csv" by (simp add: split_csv_parts [of "[]" "[cur]"])
    with True Cons [of "[]"] show ?thesis by (simp add: join_csv_Cons split_csv_not_Nil)
  next
    case False
    with Cons [of "cur @ [c]"] show ?thesis by simp
  qed
qed simp

lemma split_csv_no_comma:
  assumes "CHR '','' \<notin> set cur"
  shows "\<forall>p \<in> set (split_csv cur [] csv). CHR '','' \<notin> set p"
  using assms
proof (induction csv arbitrary: cur)
  case (Cons c csv)
  show ?case
  proof (cases "c = CHR '',''")
    case True
    with Cons.IH [of "[]"] Cons.prems show ?thesis by (simp add: split_csv_parts [of "[]" "[cur]"])
  next
    case False
    with Cons.IH [of "cur @ [c]"] Cons.prems show ?thesis by simp
  qed
qed simp

section \<open>The Merkle demo\<close>

lemma tampered_differs: "part \<noteq> [] \<Longrightarrow> tampered part \<noteq> part"
  by (cases part) (auto simp: tampered_def)

lemma hashes_sha256_string: "hashes (map (sha256_string E) parts)"
  by (simp add: hashes_def sha256_string_def)

lemma tampered_leaf_detected:
  assumes "i < length parts" and "parts ! i \<noteq> []"
    and "verify_proof E (sha256_string E (tampered (parts ! i))) \<lparr>steps = path E (map (sha256_string E) parts) i\<rparr>
           (root E (map (sha256_string E) parts))"
  shows "collision (sha256 E) (string_bytes (tampered (parts ! i))) (string_bytes (parts ! i)) \<or>
    clash E (verify_inputs E (sha256_string E (tampered (parts ! i))) \<lparr>steps = path E (map (sha256_string E) parts) i\<rparr>)
      (verify_inputs E (sha256_string E (parts ! i)) \<lparr>steps = path E (map (sha256_string E) parts) i\<rparr>)"
proof (cases "sha256_string E (tampered (parts ! i)) = sha256_string E (parts ! i)")
  case True
  with tampered_differs [OF assms(2)] show ?thesis
    by (auto simp: collision_def sha256_string_def)
next
  case False
  let ?p = "\<lparr>steps = path E (map (sha256_string E) parts) i\<rparr>"
  have "hashes (map sibling (steps ?p))"
    using hashes_path [OF hashes_sha256_string, of i E parts] assms(1) by simp
  moreover have "verify_proof E (sha256_string E (parts ! i)) ?p (root E (map (sha256_string E) parts))"
    using honest_proof_verifies [OF _ hashes_sha256_string, of i E parts] assms(1) by simp
  ultimately show ?thesis
    using verify_proofs_clash [OF _ _ _ _ _ False assms(3)]
    by (simp add: same_position_def sha256_string_def)
qed

section \<open>Chains of the demos\<close>

lemma genesis_appended:
  "append_block E (make_genesis_block E note t) (new_Chain default_config) =
     (Inr accept, \<lparr>config = default_config, blocks = [make_genesis_block E note t]\<rparr>)"
  using append_block_valid [of E "new_Chain default_config" "make_genesis_block E note t"] content_ok_genesis
  by (simp add: new_Chain_def pow_ok_def default_config_def)

lemma default_config_zero [simp]: "default_config\<lparr>difficulty_bits := 0\<rparr> = default_config"
  by (simp add: default_config_def)

lemma timestamp_genesis [simp]: "hdr_timestamp (header (make_genesis_block E note t)) = t"
  by (simp add: make_genesis_block_def Let_def)

text \<open>A block with one demo transaction fits any non-empty chain of the default configuration.\<close>

lemma demo_block_ok:
  assumes "pem_round_trip E" and "ecdsa_correct E" and "demo_transaction E nonce amount label = Inr tx"
    and "blocks c \<noteq> []" and "hdr_timestamp (header (last (blocks c))) \<le> t"
  shows "content_ok E (blocks c) (build_block_from_transactions E c [tx] t)"
  using demo_transaction_verifies [OF assms(1-3)] assms(4,5)
  by (intro content_ok_built) (simp_all add: is_coinbase_def)

section \<open>Runs of the persistence program\<close>

text \<open>Key and signature sizes and allocations under which the blocks of the program can be stored.\<close>

definition demo_sized :: "openssl \<Rightarrow> host \<Rightarrow> bool" where
  "demo_sized E H \<longleftrightarrow>
     (\<forall>nonce. \<exists>tx. demo_transaction E nonce 1 ''demo'' = Inr tx \<and>
        length (from_pub_pem tx) + length (tx_signature tx) < 4096) \<and>
     (\<forall>n < 8192. alloc_bytes H n) \<and> alloc_txs H 1"

definition next_demo_block :: "openssl \<Rightarrow> Transaction \<Rightarrow> Block list \<Rightarrow> Block" where
  "next_demo_block E tx bs =
     (if bs = [] then make_genesis_block E ''Astro: Persisted.'' 1700000000
      else build_block_from_transactions E \<lparr>config = default_config, blocks = bs\<rparr> [tx] (1700000000 + word_of_nat (length bs)))"

definition demo_log :: "openssl \<Rightarrow> host \<Rightarrow> fs \<Rightarrow> Block list \<Rightarrow> bool" where
  "demo_log E H fs bs \<longleftrightarrow>
     (bs = [] \<and> files fs ''./data/chain.log'' = None \<or> log_holds E H data_store fs bs) \<and> chain_ok E bs \<and>
     (bs \<noteq> [] \<longrightarrow> hdr_timestamp (header (last bs)) = 1700000000 + word_of_nat (length bs - 1))"

lemma small_block_storable:
  assumes "header_wf (header b)" and "transactions b = [tx]"
    and "length (from_pub_pem tx) + length (tx_signature tx) + length (to_label tx) < 4200"
    and "\<forall>n < 8192. alloc_bytes H n" and "alloc_txs H 1"
  shows "storable H b"
proof -
  have "length (serialize_tx False tx) < 4300" using assms(3) by (simp add: length_serialize_tx)
  moreover from this have "length (serialize_block b) < 8192"
    using assms(1,2) by (simp add: serialize_block_eq length_serialize_header length_lp_tx)
  moreover have "tx_fits tx" using assms(3) by (simp add: tx_fits_def)
  ultimately show ?thesis using assms by (simp add: storable_def block_fits_def)
qed

lemma next_demo_block_storable:
  assumes "demo_sized E H" and "demo_transaction E nonce 1 ''demo'' = Inr tx"
  shows "storable H (next_demo_block E tx bs)"
proof (cases "bs = []")
  case True
  then show ?thesis
    by (intro small_block_storable [OF _ _ _ _ _, where tx = "new_Transaction\<lparr>to_label := ''Astro: Persisted.''\<rparr>"])
      (use assms(1) in \<open>simp_all add: next_demo_block_def make_genesis_block_def header_wf_def new_Transaction_def
        demo_sized_def Let_def\<close>)
next
  case False
  from assms have "length (from_pub_pem tx) + length (tx_signature tx) < 4096"
    by (metis demo_sized_def sum.inject(2))
  with demo_transaction_label [OF assms(2)] False assms(1) show ?thesis
    by (intro small_block_storable [where tx = tx])
      (simp_all add: next_demo_block_def build_block_from_transactions_def header_wf_def demo_sized_def Let_def)
qed

lemma next_demo_block_ok:
  assumes "pem_round_trip E" and "ecdsa_correct E" and "demo_transaction E nonce 1 ''demo'' = Inr tx"
    and "bs \<noteq> [] \<longrightarrow> hdr_timestamp (header (last bs)) \<le> 1700000000 + word_of_nat (length bs)"
  shows "content_ok E bs (next_demo_block E tx bs)"
proof (cases "bs = []")
  case True
  then show ?thesis by (simp add: next_demo_block_def content_ok_genesis)
next
  case False
  with demo_block_ok [OF assms(1-3), of "\<lparr>config = default_config, blocks = bs\<rparr>"] assms(4) show ?thesis
    by (simp add: next_demo_block_def)
qed

lemma demo_timestamps:
  assumes "0 < n" and "n < 2 ^ 32"
  shows "(1700000000 :: u64) + word_of_nat (n - 1) \<le> 1700000000 + word_of_nat n"
proof -
  have "unat ((1700000000 :: u64) + word_of_nat k) = 1700000000 + k" if "k < 2 ^ 32" for k
    using that by (simp add: unat_word_ariths unat_u64_of_nat)
  from this [of n] this [of "n - 1"] assms show ?thesis unfolding word_le_nat_alt by linarith
qed

lemma store_main_step:
  assumes "crypto_init E" and "pem_round_trip E" and "ecdsa_correct E" and "demo_sized E H"
    and "demo_log E H fs bs" and "length bs < 2 ^ 32"
  obtains out b fs' where "store_main E H reliable_io fs = ((Inr 0, out), fs')" and "demo_log E H fs' (bs @ [b])"
    and "log_holds E H data_store fs' (bs @ [b])"
proof -
  let ?c = "\<lparr>config = default_config, blocks = bs\<rparr>"
  obtain tx where tx: "demo_transaction E (word_of_nat (length bs)) 1 ''demo'' = Inr tx"
    using assms(4) unfolding demo_sized_def by blast
  let ?b = "next_demo_block E tx bs"
  obtain fs1 where st: "new_BlockStore reliable_io ''./data'' fs = (Inr data_store, fs1)"
    using reliable_new_store_ok by blast
  with assms(5) reliable_new_store [OF st] have log: "log_holds E H data_store fs1 bs" and ok: "chain_ok E bs"
    by (auto simp: demo_log_def log_holds_def)
  have re: "restore_from_store E H reliable_io data_store fs1 (new_Chain default_config) = (Inr (), ?c)"
    by (rule restore_logged [OF log ok])
  let ?fs = "store_put E H reliable_io data_store ?b fs1"
  have b: "content_ok E bs ?b" "storable H ?b"
    using demo_timestamps [of "length bs"] assms(5,6)
    by (auto intro!: next_demo_block_ok [OF assms(2,3) tx] next_demo_block_storable [OF assms(4) tx] simp: demo_log_def)
  have ap: "append_and_store E H reliable_io data_store ?b (?c, fs1) = (Inr accept, ?c\<lparr>blocks := bs @ [?b]\<rparr>, ?fs)"
    using append_and_store_valid [of E ?c ?b reliable_io H data_store fs1] b(1)
    by (simp add: pow_ok_def default_config_def reliable_io_def)
  have "\<exists>out. store_main E H reliable_io fs = ((Inr 0, out), ?fs)"
    using assms(1) st re ap tx
    by (auto simp: store_main_def Let_def height_def next_demo_block_def split: if_splits)
  moreover have log': "log_holds E H data_store ?fs (bs @ [?b])" using log b(2) by (rule file_log.holds_put)
  moreover have "demo_log E H ?fs (bs @ [?b])"
    using log' ok b(1)
    by (simp add: demo_log_def chain_ok_snoc)
      (simp add: next_demo_block_def build_block_from_transactions_def Let_def)
  ultimately show ?thesis using that by blast
qed

section \<open>Properties\<close>

text \<open>C32: after \<open>n < 2 ^ 32\<close> runs of the persistence program in a directory without a log, each a new process
  that restores the chain and adds a block, every run has exited with 0 and the file holds a valid chain of
  exactly \<open>n\<close> blocks. All file operations succeed; OpenSSL starts, keys survive PEM and signatures made
  with a key verify with it (\<open>crypto_init\<close>, \<open>pem_round_trip\<close>, \<open>ecdsa_correct\<close>); and keys are generated and
  messages signed, with a key and signature of less than 4096 bytes, and 8192 bytes can be allocated
  (\<open>demo_sized\<close>).\<close>

theorem store_main_runs:
  assumes "crypto_init E" and "pem_round_trip E" and "ecdsa_correct E" and "demo_sized E H"
    and "files fs ''./data/chain.log'' = None" and "n < 2 ^ 32"
  shows "\<exists>bs. demo_log E H (((\<lambda>fs. snd (store_main E H reliable_io fs)) ^^ n) fs) bs \<and> length bs = n \<and>
    (\<forall>k < n. \<exists>out. fst (store_main E H reliable_io (((\<lambda>fs. snd (store_main E H reliable_io fs)) ^^ k) fs)) = (Inr 0, out))"
  using assms(6)
proof (induction n)
  case 0
  then show ?case using assms(5) by (simp add: demo_log_def)
next
  case (Suc n)
  let ?run = "\<lambda>fs. snd (store_main E H reliable_io fs)"
  from Suc obtain bs where bs: "demo_log E H ((?run ^^ n) fs) bs" "length bs = n"
    and exits: "\<forall>k < n. \<exists>out. fst (store_main E H reliable_io ((?run ^^ k) fs)) = (Inr 0, out)"
    by auto
  from Suc.prems bs(2) have "length bs < 2 ^ 32" by simp
  from store_main_step [OF assms(1-4) bs(1) this] obtain out b fs' where
    run: "store_main E H reliable_io ((?run ^^ n) fs) = ((Inr 0, out), fs')" and "demo_log E H fs' (bs @ [b])" .
  then have "demo_log E H ((?run ^^ Suc n) fs) (bs @ [b])" by simp
  moreover have "\<forall>k < Suc n. \<exists>out. fst (store_main E H reliable_io ((?run ^^ k) fs)) = (Inr 0, out)"
    using exits run by (auto simp: less_Suc_eq)
  ultimately show ?case using bs(2) by (intro exI [of _ "bs @ [b]"]) simp
qed

lemma sample_demo_sized: "demo_sized sample_openssl sample_host"
  by (simp add: demo_sized_def sample_demo_transaction sample_host_def Let_def)

lemma sample_crypto_init: "crypto_init sample_openssl"
  by (simp add: crypto_init_def sample_openssl_def)

theorem store_main_runs_witness:
  "\<exists>bs. demo_log sample_openssl sample_host
      (((\<lambda>fs. snd (store_main sample_openssl sample_host reliable_io fs)) ^^ 5) sample_fs) bs \<and> length bs = 5"
  using store_main_runs [OF sample_crypto_init sample_pem_round_trip sample_ecdsa_correct sample_demo_sized,
      of sample_fs 5]
  by (auto simp: sample_fs_def)

text \<open>The Merkle demo confirms its own tree: for every list of leaves and every index, clamped to
  the last leaf, it prints that the proof verifies, and that the tampered leaf is refused unless
  SHA-256 collides.\<close>

theorem demo_merkle_verifies:
  assumes "merkle_options ''a,b,c,d,e'' 0 args = Inr (Options (csv, i))"
  shows "let parts = split_csv [] [] csv; leaves = map (sha256_string E) parts;
             k = min (unat i) (length parts - 1); pf = \<lparr>steps = path E leaves k\<rparr>;
             head = [''leaves: '' @ decimal (length parts), ''root:   '' @ toHex (root E leaves),
                     ''proof.steps: '' @ decimal (length (steps pf)), ''verify['' @ decimal k @ '']: OK'']
    in if parts ! k = [] then demo_merkle E args = (Inr 0, head)
       else demo_merkle E args = (Inr 0, head @ [''verify tampered: EXPECTED_FAIL'']) \<or>
         collision (sha256 E) (string_bytes (tampered (parts ! k))) (string_bytes (parts ! k)) \<or>
         clash E (verify_inputs E (sha256_string E (tampered (parts ! k))) pf)
           (verify_inputs E (sha256_string E (parts ! k)) pf)"
proof -
  let ?parts = "split_csv [] [] csv"
  let ?leaves = "map (sha256_string E) ?parts"
  let ?k = "min (unat i) (length ?parts - 1)"
  have k: "?k < length ?parts" using split_csv_not_Nil [of "[]" "[]" csv] by (simp add: min_less_iff_disj)
  have idx: "(if length ?leaves \<le> unat i then length ?leaves - 1 else unat i) = ?k"
    using k by auto
  have pf: "build_proof E ?leaves ?k = Some \<lparr>steps = path E ?leaves ?k\<rparr>"
    using k by (intro build_proof_path) simp
  have ok: "verify_proof E (?leaves ! ?k) \<lparr>steps = path E ?leaves ?k\<rparr> (root E ?leaves)"
    using k by (intro honest_proof_verifies hashes_sha256_string) simp
  show ?thesis
    using tampered_leaf_detected [OF k, of E] assms ok
    unfolding demo_merkle_def Let_def
    by (simp only: assms sum.case options.case prod.case split_csv_not_Nil if_False idx pf option.case)
      auto
qed

theorem demo_merkle_verifies_witness:
  "demo_merkle sample_openssl [''--leaves='', ''--index'', ''7''] =
     (Inr 0, [''leaves: 1'', ''root:   '' @ toHex (root sample_openssl [sha256_string sample_openssl []]),
              ''proof.steps: 0'', ''verify[0]: OK''])"
proof -
  have "merkle_options ''a,b,c,d,e'' 0 [''--leaves='', ''--index'', ''7''] = Inr (Options ([], 7))"
    by (simp add: starts_with_def stoull_def scan_number_def is_space_def is_digit_def digits_value_def)
  moreover have "char_of (49 :: nat) = CHR ''1''" and "char_of (48 :: nat) = CHR ''0''" by code_simp+
  ultimately show ?thesis
    using demo_merkle_verifies [of "[''--leaves='', ''--index'', ''7'']" "[]" 7 sample_openssl]
    by (simp add: Let_def path_simps decimal.simps)
qed

text \<open>The chain demo succeeds with working cryptography: it appends the genesis block and a signed
  block, prints a height of two and exits with 0.\<close>

theorem demo_chain_succeeds:
  assumes "crypto_init E" and "pem_round_trip E" and "ecdsa_correct E"
    and "demo_transaction E 1 42 ''darth vader'' = Inr tx" and "t0 \<le> t0 + 1"
  shows "\<exists>out. demo_chain E t0 = (Inr 0, out) \<and> last out = ''height: '' @ decimal 2"
proof -
  let ?g = "make_genesis_block E ''Astro begins'' t0"
  let ?c = "\<lparr>config = default_config, blocks = [?g]\<rparr>"
  let ?b = "build_block_from_transactions E ?c [tx] (t0 + 1)"
  have "content_ok E (blocks ?c) ?b" by (rule demo_block_ok [OF assms(2-4)]) (simp_all add: assms(5))
  then have "append_block E ?b ?c = (Inr accept, ?c\<lparr>blocks := [?g, ?b]\<rparr>)"
    using append_block_valid [of E ?c ?b] by (simp add: pow_ok_def default_config_def)
  with assms(1,4) show ?thesis
    by (simp add: demo_chain_def genesis_appended tip_hash_def height_def Let_def numeral_2_eq_2)
qed

theorem demo_chain_succeeds_witness:
  "\<exists>out. demo_chain sample_openssl 1700000000 = (Inr 0, out) \<and> last out = ''height: '' @ decimal 2"
  using demo_chain_succeeds [OF sample_crypto_init sample_pem_round_trip sample_ecdsa_correct sample_demo_transaction]
  by simp

text \<open>C33: the mining program exits with 0, and reports the mined block as the second of its chain at the
  difficulty asked for, when OpenSSL starts (\<open>crypto_init\<close>), a key pair is generated and the transaction signed
  (\<open>demo_transaction\<close> returns), keys survive PEM and signatures made with a key verify with it
  (\<open>pem_round_trip\<close>, \<open>ecdsa_correct\<close>), the clock is never behind the time of the genesis block it made, and
  some nonce solves the puzzle.\<close>

theorem mine_main_succeeds:
  assumes "crypto_init E" and "pem_round_trip E" and "ecdsa_correct E"
    and "demo_transaction E 1 42 ''darth vader'' = Inr tx" and "\<forall>k. t0 \<le> clk k"
    and "solves E (case argv of [] \<Rightarrow> 18 | arg # _ \<Rightarrow> atoi_u32 arg)
      (candidate E clk \<lparr>config = default_config, blocks = [make_genesis_block E ''Astro Born'' t0]\<rparr> [tx] n)"
  shows "\<exists>out b. mine_main E F t0 clk begun now ended argv = Some (Inr 0, out) \<and>
    solves E (case argv of [] \<Rightarrow> 18 | arg # _ \<Rightarrow> atoi_u32 arg) b \<and>
    last out = ''height: 2 hash: '' @ take 16 (toHex (hash_header E (header b))) @ ''...''"
proof -
  let ?d = "case argv of [] \<Rightarrow> 18 | arg # _ \<Rightarrow> atoi_u32 arg"
  let ?g = "make_genesis_block E ''Astro Born'' t0"
  let ?c = "\<lparr>config = default_config, blocks = [?g]\<rparr>"
  have "\<exists>n. search_ends E clk (\<lambda>_. False) ?c [tx] ?d n"
    using assms(6) by (auto simp: search_ends_def)
  then obtain b pr where mined: "mine_block E clk (\<lambda>_. False) ?c [tx] ?d True 25000 = Some (Found b, pr)"
    by (rule mine_block_finds)
  have "content_ok E (blocks ?c) b"
    by (rule mined_content_ok [OF mined])
      (use assms(5) demo_transaction_verifies [OF assms(2-4)] in simp_all)
  moreover have found: "solves E ?d b" by (rule mine_block_found [OF mined])
  ultimately have "append_block E b (set_difficulty_bits ?d ?c) =
      (Inr accept, (set_difficulty_bits ?d ?c)\<lparr>blocks := [?g, b]\<rparr>)"
    using append_block_valid [of E "set_difficulty_bits ?d ?c" b]
    by (simp add: set_difficulty_bits_def pow_ok_def solves_def meets_difficulty_def)
  moreover have "decimal (Suc (Suc 0)) = ''2''" by (simp add: decimal.simps char_of_def bit_simps)
  ultimately show ?thesis
    using mined assms(1,4) found by (auto simp: mine_main_def genesis_appended height_def Let_def)
qed

theorem mine_main_succeeds_witness:
  "\<exists>out b. mine_main sample_openssl sample_fp 1700000000 (\<lambda>_. 1700000000) 0 (\<lambda>k. int k) 9 [''8''] = Some (Inr 0, out) \<and>
     solves sample_openssl (case [''8''] of [] \<Rightarrow> 18 | arg # _ \<Rightarrow> atoi_u32 arg) b \<and>
     last out = ''height: 2 hash: '' @ take 16 (toHex (hash_header sample_openssl (header b))) @ ''...''"
proof (rule mine_main_succeeds [OF sample_crypto_init sample_pem_round_trip sample_ecdsa_correct sample_demo_transaction])
  have d: "atoi_u32 ''8'' = 8"
    by (simp add: atoi_u32_def scan_number_def is_space_def is_digit_def digits_value_def)
  show "solves sample_openssl (case [''8''] of [] \<Rightarrow> 18 | arg # _ \<Rightarrow> atoi_u32 arg)
      (candidate sample_openssl (\<lambda>_. 1700000000)
        \<lparr>config = default_config, blocks = [make_genesis_block sample_openssl ''Astro Born'' 1700000000]\<rparr>
        [let tx = new_Transaction\<lparr>tx_version := 1, tx_nonce := 1, tx_amount := 42, from_pub_pem := [2, 0, 0, 0],
            to_label := ''darth vader''\<rparr>
         in tx\<lparr>tx_signature := [3, sample_checksum (serialize_tx True tx)]\<rparr>] 0)"
    by (simp add: solves_def hash_header_def d order_trans [OF _ sample_sha_zero_bits])
qed simp

text \<open>The key demo reports a verified signature for every curve and message for which key
  generation and signing succeed.\<close>

theorem demo_keys_verifies:
  assumes "crypto_init E" and "pem_round_trip E" and "ecdsa_correct E"
    and "keys_options ''secp256k1'' ''astro demo'' args = Options (curve, message)"
    and "generate_ec_keypair E curve = Inr kp" and "sign_message_string E (privkey_pem kp) message = Inr sig"
  shows "\<exists>out. demo_keys E args = (Inr 0, out) \<and> last out = ''Verification: OK''"
proof -
  have "verify_message_string E (pubkey_pem kp) message sig = Inr True"
    using verify_message_sign_message [OF assms(2,3,5)] assms(6)
    by (simp add: verify_message_string_def sign_message_string_def)
  with assms show ?thesis by (simp add: demo_keys_def Let_def)
qed

theorem demo_keys_verifies_witness:
  "\<exists>out. demo_keys sample_openssl [''--message'', ''hi''] = (Inr 0, out) \<and> last out = ''Verification: OK''"
proof (rule demo_keys_verifies [OF sample_crypto_init sample_pem_round_trip sample_ecdsa_correct])
  show "keys_options ''secp256k1'' ''astro demo'' [''--message'', ''hi''] = Options (default_curve, ''hi'')"
    by (simp add: starts_with_def default_curve_def)
  show "generate_ec_keypair sample_openssl default_curve = Inr \<lparr>privkey_pem = [1, 0, 0, 0], pubkey_pem = [2, 0, 0, 0]\<rparr>"
    by (rule sample_keypair)
  show "sign_message_string sample_openssl (privkey_pem \<lparr>privkey_pem = [1, 0, 0, 0], pubkey_pem = [2, 0, 0, 0]\<rparr>) ''hi'' =
      Inr [3, sample_checksum (string_bytes ''hi'')]"
    by (simp add: sign_message_string_def sign_message_def sample_openssl_def copy_into_def zero_array_def)
qed

text \<open>A number that cannot be parsed is outside the \<open>try\<close> block and ends the program.\<close>

lemma demo_tx_bad_amount:
  "stoull s = Inl e \<Longrightarrow> demo_tx E [''--amount='' @ s] = (Inl (Uncaught e), [])"
  by (simp add: demo_tx_def starts_with_def)

end
