(* ===== verification/Spec2Isabelle.thy ===== *)
theory Spec2Isabelle
  imports Astro_Lifetime Astro_Tui_Sync Astro_Durability Astro_Resources Astro_Cli
begin

text \<open>
  A verification library for \<^emph>\<open>astro\<close>, a block chain node in C++ (sources under src/).

  \<^bold>\<open>The program.\<close> Transactions and blocks are serialized with a small byte writer and reader
  (include/astro/core/serializer.hpp), hashed with SHA-256 and signed with ECDSA through OpenSSL
  (src/core/hash.cpp, src/core/keys.cpp). A block commits to its transactions by a Merkle root
  (src/core/merkle.cpp) and to its predecessor by the predecessor's hash; its own hash must have a
  number of leading zero bits (src/core/pow.cpp), for which a miner searches (src/core/miner.cpp). A
  chain validates and appends blocks (src/core/chain.cpp) and can persist them in an append-only log
  (src/core/block_store.cpp). Four programs use the library: a node with demo commands
  (src/main.cpp), a mining program, a persistence program and a terminal interface with a mining
  thread (src/cli).

  \<^bold>\<open>The theories\<close>, in the order of the code, with the sources they model:

  \<^item> \<open>Astro_Prelude\<close>: widths of integers, bytes and characters, exceptions and their sequencing.
  \<^item> \<open>Astro_Serializer\<close> (serializer.hpp): \<open>ByteWriter\<close> and \<open>ByteReader\<close> as records, one definition per
    member. Interfaces: \<open>cursor_parser\<close>, a reader that moves forward inside its buffer or throws, and
    \<open>codec\<close>, a writer with the reader that undoes it, \<open>sized_parser\<close>, a reader whose results are
    well-formed and no bigger than what it consumed, and \<open>faithful_parser\<close>, a reader whose results are the
    ones denoted by the bytes it consumed, whoever wrote them; they are interpreted for the primitives here
    and for transactions, headers and blocks later.
  \<^item> \<open>Astro_Hash\<close>, \<open>Astro_Keys\<close> (hash.cpp, keys.cpp): the wrappers with every early return and every
    exception. OpenSSL is the record \<open>openssl\<close>, an argument of every definition that uses it; what is
    assumed of it is stated as \<open>pem_round_trip\<close> and \<open>ecdsa_correct\<close>. Nothing assumes that SHA-256 is
    injective: statements about hashes end in "or these inputs collide". \<open>Astro_Sample\<close> is a small
    executable instance on which the examples are evaluated.
  \<^item> \<open>Astro_Transaction\<close>, \<open>Astro_Merkle\<close>, \<open>Astro_Pow\<close>, \<open>Astro_Block\<close> (the files of the same names): signing and
    the injectivity of the signed bytes; proofs of inclusion, sound and complete; leading zero bits as
    a bound on the hash read as a number; what a block hash commits to.
  \<^item> \<open>Astro_Block_Store\<close> (block_store.cpp): the log as bytes of a file. The outcomes of file operations,
    the byte order and the allocation limits of the machine are arguments (\<open>io\<close>, \<open>host\<close>). The
    interface \<open>block_log\<close> says what a log promises and is interpreted on the file operations. Also here:
    what loading returns after torn writes and after damage, and that every block it returns, from whatever
    file, is denoted by a record of the file with the right magic numbers, length and checksum.
  \<^item> \<open>Astro_Chain\<close> (chain.cpp without the store): validation with its error codes, shown equivalent to a
    declarative specification (\<open>content_ok\<close>, \<open>pow_ok\<close>); the reachable chains and their invariant.
  \<^item> \<open>Astro_Chain_Store\<close> (\<open>restore_from_store\<close>, \<open>append_and_store\<close>): the interface \<open>journaled\<close>, a machine that
    logs the inputs it accepts, interpreted on the chain and its log; recovery after a session.
  \<^item> \<open>Astro_Resources\<close> (hash.cpp, keys.cpp once more): the same functions with the OpenSSL objects they
    allocate and free; they compute the same results and leave no object behind on any path.
  \<^item> \<open>Astro_Durability\<close> (\<open>append_block\<close> with \<open>fsync_fd\<close>, block_store.cpp): what a power failure leaves of the
    log, of which only the contents at the last successful \<open>fsync\<close> are known to be found again. The interface
    \<open>crash_journal\<close> extends \<open>journaled\<close> by a last write that may be torn and is interpreted on the log;
    acknowledged blocks survive when \<open>fsync\<close> works, and may be lost when it fails.
  \<^item> \<open>Astro_Miner\<close> (miner.cpp): the search loop as a partial function. A search that never ends is the
    value \<open>None\<close>, so the theorems that a block is found are theorems about termination. The clock and
    the cancel flag are arbitrary functions of the number of the reading.
  \<^item> \<open>Astro_Terminal\<close> (tui.cpp, the namespace \<open>tui\<close> and the helpers of \<open>draw\<close>): the guards of the terminal,
    which undo what they did; escape sequences, boxes and formatted numbers as a list of output items.
    Floating-point arithmetic is the record \<open>fp\<close>, a parameter of which nothing is assumed.
  \<^item> \<open>Astro_Tui\<close> (tui.cpp): the state of the application, the handlers as functions on it, and the
    worker thread as a step relation. Waiting for the worker (\<open>join_worker\<close>) runs its search to the end, which
    may not come; that it comes follows from the cancel flag.
  \<^item> \<open>Astro_Draw\<close> (\<open>draw\<close> of tui.cpp): a frame panel by panel; that it stays on the screen, and which part of
    the chain and of the log it shows.
  \<^item> \<open>Astro_Tui_Loop\<close> (\<open>main\<close> of tui.cpp, by steps): the worker and the steps of the main loop as an
    interleaving step relation; shown to refine a sequential ledger, from which the invariants and the
    recovery after a restart follow.
  \<^item> \<open>Astro_Tui_Main\<close> (\<open>main\<close> of tui.cpp, as a program): the loop over the keys, a frame, the main loop and
    the end of the program. Frames are sequences of the steps above; both loops return unless input
    floods the first, the program never waits for the worker in vain, and a normal end joins the worker,
    releases OpenSSL when no thread uses it any more and restores the terminal.
  \<^item> \<open>Astro_Tui_Sync\<close> (tui.cpp): the accesses of both threads to the state that is not atomic. An invariant of
    the flags shows that they do not race, with one exception, a block that the key \<open>B\<close> appends while the
    worker starts.
  \<^item> \<open>Astro_Lifetime\<close> (tui.cpp): sessions that follow one another on the same file, each left between two steps
    of its event loop, the last one possibly killed inside an append; restarts recover the chain, and the
    chain only grows until it is cleared. File operations succeed there.
  \<^item> \<open>Astro_Cli\<close> (main.cpp, mine.cpp, store.cpp): argument parsing and the programs as functions to an exit
    code and output.

  \<^bold>\<open>State and errors.\<close> A C++ object is a record with the fields of the source (renamed where two
  classes share a name: \<open>tx_\<close>, \<open>hdr_\<close>, \<open>ms_\<close>, \<open>app_\<close>); a member function takes the record and
  returns it updated. Code that may throw returns \<open>exn + 'a\<close>. \<open>uint8_t\<close> to \<open>uint64_t\<close> are words of their
  width; \<open>size_t\<close> is a natural number where it indexes memory that exists.

  \<^bold>\<open>Bounds.\<close> Length prefixes are 32 bits wide: the round trips assume fields shorter than \<open>2 ^ 32\<close>
  (\<open>tx_fits\<close>, \<open>block_fits\<close>, \<open>storable\<close>). No definition uses fuel: loops are structural, have a measure, or
  are partial functions.

  \<^bold>\<open>Power failures.\<close> \<open>Astro_Durability\<close> assumes of the medium what POSIX says of \<open>fsync\<close>: the contents a file
  had when it last succeeded are found again. The log is only appended to, so they stay its beginning;
  behind them any bytes may be found when more was written since. Directory entries are taken to survive.
  The other theories consider processes that are killed, not power that fails.

  \<^bold>\<open>Not modelled.\<close> The pause between the frames of the terminal interface; the effects of a data race, which
  C++ leaves undefined: \<open>Astro_Tui_Sync\<close> says where one can happen, and elsewhere the mining thread's read of
  the chain is one step and a frame is drawn from one state, although the worker may change its atomic
  counters meanwhile; the progress reports a worker makes while it is waited for; what a power failure
  leaves of a log that was cleared, since \<open>do_clear_store\<close> does not call \<open>fsync\<close>; what wide characters occupy on the screen; standard error; the Windows branches; the
  state of OpenSSL's error queue; tests and build files.
\<close>

end
